theory Spec2Isabelle
  imports Complex_Main "HOL-Library.Sublist"
begin

section \<open>Action model (scripts/action-queue.js)\<close>

text \<open>
  The tables \<open>ActionType\<close> and \<open>ConditionType\<close>: the program dispatches on these strings.
\<close>

definition MOVEMENT :: string where "MOVEMENT = ''movement''"
definition ATTACK :: string where "ATTACK = ''attack''"
definition SPELL :: string where "SPELL = ''spell''"
definition ITEM :: string where "ITEM = ''item''"
definition BONUS_ACTION :: string where "BONUS_ACTION = ''bonusAction''"
definition REACTION :: string where "REACTION = ''reaction''"
definition END_TURN :: string where "END_TURN = ''endTurn''"

definition ALWAYS :: string where "ALWAYS = ''always''"
definition TARGET_IN_RANGE :: string where "TARGET_IN_RANGE = ''targetInRange''"
definition RESOURCE_AVAILABLE :: string where "RESOURCE_AVAILABLE = ''resourceAvailable''"
definition HP_THRESHOLD :: string where "HP_THRESHOLD = ''hpThreshold''"
definition ATTACK_HIT :: string where "ATTACK_HIT = ''attackHit''"
definition ATTACK_MISS :: string where "ATTACK_MISS = ''attackMiss''"

text \<open>
  Exceptions are values. \<open>message\<close> is the \<open>message\<close> property the handlers read.
\<close>

datatype exn = TypeError string | SyntaxError string | Error string

fun message :: "exn \<Rightarrow> string" where
  "message (TypeError m) = m"
| "message (SyntaxError m) = m"
| "message (Error m) = m"

text \<open>
  \<open>conditions\<close> of an action: \<open>{type, value}\<close>; \<open>None\<close> is \<open>null\<close> or \<open>undefined\<close>.
  \<open>data\<close> of an action: the property \<open>itemUuid\<close> that the executor reads itself, the
  other properties (way points, target priorities, ...) are only handed on to the
  movement and attack systems and kept as one opaque value.
\<close>

record Conditions =
  cond_type :: string
  cond_value :: "string option"

record Payload =
  itemUuid :: "string option"
  details :: string

text \<open>
  A plain object as it is stored in the token flag and as it comes out of a parsed
  import: every property can be missing (\<open>None\<close>: absent, \<open>undefined\<close> or \<open>null\<close>).
\<close>

record ActionObject =
  obj_id :: "string option"
  obj_type :: "string option"
  obj_order :: "int option"
  obj_enabled :: "bool option"
  obj_name :: "string option"
  obj_description :: "string option"
  obj_conditions :: "Conditions option"
  obj_data :: "Payload option"
  obj_onSuccess :: "string option"
  obj_onFailure :: "string option"

text \<open>The class \<open>ActionQueueItem\<close>; the field \<open>id\<close> is named \<open>id'\<close> here.\<close>

record ActionQueueItem =
  id' :: string
  type :: string
  order :: int
  enabled :: bool
  name :: string
  description :: string
  conditions :: Conditions
  data :: Payload
  onSuccess :: "string option"
  onFailure :: "string option"

text \<open>
  Truthiness of an optional string, and \<open>v || d\<close>: the empty string is falsy, as
  \<open>null\<close> and \<open>undefined\<close> are.
\<close>

definition truthy :: "string option \<Rightarrow> bool" where
  "truthy v = (case v of None \<Rightarrow> False | Some s \<Rightarrow> s \<noteq> [])"

definition or_else :: "string option \<Rightarrow> string \<Rightarrow> string" where
  "or_else v d = (case v of None \<Rightarrow> d | Some s \<Rightarrow> if s = [] then d else s)"

definition or_null :: "string option \<Rightarrow> string option" where
  "or_null v = (if truthy v then v else None)"

text \<open>
  \<open>foundry.utils.randomID()\<close> belongs to the host. The generator is the sequence of
  the identifiers it is going to return; a call takes the first one.
\<close>

type_synonym idgen = "nat \<Rightarrow> string"

definition randomID :: "idgen \<Rightarrow> string \<times> idgen" where
  "randomID g = (g 0, \<lambda>n. g (Suc n))"

text \<open>
  The constructor. \<open>data.id || randomID()\<close> calls the generator only when the object
  has no truthy id.
\<close>

definition new_ActionQueueItem :: "ActionObject \<Rightarrow> idgen \<Rightarrow> ActionQueueItem \<times> idgen" where
  "new_ActionQueueItem d g =
    (let (i, g') = (case obj_id d of
                      None \<Rightarrow> randomID g
                    | Some s \<Rightarrow> if s = [] then randomID g else (s, g))
     in (\<lparr> id' = i,
           type = or_else (obj_type d) MOVEMENT,
           order = (case obj_order d of None \<Rightarrow> 0 | Some n \<Rightarrow> n),
           enabled = (obj_enabled d \<noteq> Some False),
           name = or_else (obj_name d) ''Untitled Action'',
           description = or_else (obj_description d) [],
           conditions = (case obj_conditions d of
                           None \<Rightarrow> \<lparr> cond_type = ALWAYS, cond_value = None \<rparr>
                         | Some c \<Rightarrow> c),
           data = (case obj_data d of
                     None \<Rightarrow> \<lparr> itemUuid = None, details = [] \<rparr>
                   | Some p \<Rightarrow> p),
           onSuccess = or_null (obj_onSuccess d),
           onFailure = or_null (obj_onFailure d) \<rparr>, g'))"

definition toObject :: "ActionQueueItem \<Rightarrow> ActionObject" where
  "toObject a =
    \<lparr> obj_id = Some (id' a),
      obj_type = Some (type a),
      obj_order = Some (order a),
      obj_enabled = Some (enabled a),
      obj_name = Some (name a),
      obj_description = Some (description a),
      obj_conditions = Some (conditions a),
      obj_data = Some (data a),
      obj_onSuccess = onSuccess a,
      obj_onFailure = onFailure a \<rparr>"

definition fromObject :: "ActionObject \<Rightarrow> idgen \<Rightarrow> ActionQueueItem \<times> idgen" where
  "fromObject obj g = new_ActionQueueItem obj g"

text \<open>\<open>objs.map(a => ActionQueueItem.fromObject(a))\<close>, left to right.\<close>

fun fromObjects :: "ActionObject list \<Rightarrow> idgen \<Rightarrow> ActionQueueItem list \<times> idgen" where
  "fromObjects [] g = ([], g)"
| "fromObjects (d # ds) g =
    (let (a, g1) = fromObject d g; (as, g2) = fromObjects ds g1 in (a # as, g2))"

section \<open>Queue manager (scripts/action-queue.js)\<close>

text \<open>
  The envelope stored in the token document's flag, and the host side of the manager:
  the flag of every token (by token id) and the identifier generator. A token carries
  its identity, its name, whether the user owns it, its actor (hit points, spell slots
  by property name such as \<open>spell3\<close>, resources by name, each with its \<open>value\<close>), and
  whether the host accepts \<open>document.setFlag\<close> for it (a rejected update throws).
\<close>

record QueueData =
  version :: string
  queue_enabled :: bool
  actions :: "ActionObject list"

record Actor =
  hp_value :: int
  hp_max :: int
  spells :: "string \<Rightarrow> int option"
  resources :: "string \<Rightarrow> int option"

record Token =
  token_id :: string
  token_name :: string
  isOwner :: bool
  actor :: Actor
  flagWritable :: bool

record Host =
  flags :: "string \<Rightarrow> QueueData option"
  rng :: idgen

definition getFlag :: "Host \<Rightarrow> Token \<Rightarrow> QueueData option" where
  "getFlag h token = flags h (token_id token)"

definition setFlag :: "Host \<Rightarrow> Token \<Rightarrow> QueueData \<Rightarrow> exn + Host" where
  "setFlag h token qd =
    (if flagWritable token
     then Inr (h\<lparr> flags := (flags h)(token_id token \<mapsto> qd) \<rparr>)
     else Inl (Error ''update rejected''))"

definition getQueue :: "Host \<Rightarrow> Token \<Rightarrow> ActionQueueItem list \<times> Host" where
  "getQueue h token =
    (case getFlag h token of
       None \<Rightarrow> ([], h)
     | Some qd \<Rightarrow> (let (q, g) = fromObjects (actions qd) (rng h) in (q, h\<lparr> rng := g \<rparr>)))"

definition setQueue :: "Host \<Rightarrow> Token \<Rightarrow> ActionQueueItem list \<Rightarrow> bool \<times> Host" where
  "setQueue h token as =
    (let queueData = \<lparr> version = ''1.0.0'', queue_enabled = True, actions = map toObject as \<rparr>
     in case setFlag h token queueData of
          Inr h' \<Rightarrow> (True, h')
        | Inl e \<Rightarrow> (False, h))"

definition addAction :: "Host \<Rightarrow> Token \<Rightarrow> ActionQueueItem \<Rightarrow> bool \<times> Host" where
  "addAction h token action =
    (let (queue, h1) = getQueue h token
     in setQueue h1 token (queue @ [action\<lparr> order := int (length queue) \<rparr>]))"

text \<open>\<open>xs.forEach((a, idx) => a.order = start + idx)\<close>\<close>

definition renumber :: "nat \<Rightarrow> ActionQueueItem list \<Rightarrow> ActionQueueItem list" where
  "renumber start xs = map (\<lambda>(idx, a). a\<lparr> order := int idx \<rparr>) (enumerate start xs)"

definition removeAction :: "Host \<Rightarrow> Token \<Rightarrow> string \<Rightarrow> bool \<times> Host" where
  "removeAction h token actionId =
    (let (queue, h1) = getQueue h token;
         filtered = filter (\<lambda>a. id' a \<noteq> actionId) queue
     in setQueue h1 token (renumber 0 filtered))"

text \<open>
  \<open>queue.find(a => a.id === actionId)\<close> gives the first match, an element of the
  queue itself: what is assigned to it afterwards is seen in the queue. \<open>find_pos\<close> is
  its position.
\<close>

fun find_pos :: "('a \<Rightarrow> bool) \<Rightarrow> 'a list \<Rightarrow> nat option" where
  "find_pos P [] = None"
| "find_pos P (x # xs) =
    (if P x then Some 0 else (case find_pos P xs of None \<Rightarrow> None | Some n \<Rightarrow> Some (Suc n)))"

text \<open>
  The \<open>updates\<close> of \<open>updateAction\<close>: an object with some of the properties of an action.
  \<open>None\<close> is a property that \<open>updates\<close> does not have. The branch targets can be there
  with the value \<open>null\<close> (\<open>Some None\<close>), which \<open>Object.assign(action, updates)\<close> copies as
  it copies every property that is there.
\<close>

record Updates =
  upd_id :: "string option"
  upd_type :: "string option"
  upd_order :: "int option"
  upd_enabled :: "bool option"
  upd_name :: "string option"
  upd_description :: "string option"
  upd_conditions :: "Conditions option"
  upd_data :: "Payload option"
  upd_onSuccess :: "string option option"
  upd_onFailure :: "string option option"

definition ov :: "'a option \<Rightarrow> 'a \<Rightarrow> 'a" where
  "ov u old = (case u of None \<Rightarrow> old | Some v \<Rightarrow> v)"

definition assign :: "ActionQueueItem \<Rightarrow> Updates \<Rightarrow> ActionQueueItem" where
  "assign a u =
    \<lparr> id' = ov (upd_id u) (id' a),
      type = ov (upd_type u) (type a),
      order = ov (upd_order u) (order a),
      enabled = ov (upd_enabled u) (enabled a),
      name = ov (upd_name u) (name a),
      description = ov (upd_description u) (description a),
      conditions = ov (upd_conditions u) (conditions a),
      data = ov (upd_data u) (data a),
      onSuccess = ov (upd_onSuccess u) (onSuccess a),
      onFailure = ov (upd_onFailure u) (onFailure a) \<rparr>"

definition updateAction :: "Host \<Rightarrow> Token \<Rightarrow> string \<Rightarrow> Updates \<Rightarrow> bool \<times> Host" where
  "updateAction h token actionId updates =
    (let (queue, h1) = getQueue h token
     in case find_pos (\<lambda>a. id' a = actionId) queue of
          None \<Rightarrow> (False, h1)
        | Some p \<Rightarrow> setQueue h1 token (queue[p := assign (queue ! p) updates]))"

text \<open>
  \<open>reorderActions\<close>: every id of \<open>actionIds\<close> that is found pushes the found element and
  sets its order to the index of the id. An element found twice is pushed twice and is
  one object: both entries carry the order written last.
\<close>

definition reorder_hits :: "ActionQueueItem list \<Rightarrow> string list \<Rightarrow> (nat \<times> nat) list" where
  "reorder_hits queue actionIds =
    concat (map (\<lambda>(idx, i). case find_pos (\<lambda>a. id' a = i) queue of
                               None \<Rightarrow> []
                             | Some p \<Rightarrow> [(idx, p)])
                (enumerate 0 actionIds))"

definition last_order :: "(nat \<times> nat) list \<Rightarrow> nat \<Rightarrow> nat" where
  "last_order hits p = foldl (\<lambda>acc (idx, q). if q = p then idx else acc) 0 hits"

definition reorderActions :: "Host \<Rightarrow> Token \<Rightarrow> string list \<Rightarrow> bool \<times> Host" where
  "reorderActions h token actionIds =
    (let (queue, h1) = getQueue h token;
         hits = reorder_hits queue actionIds;
         reordered = map (\<lambda>(idx, p). (queue ! p)\<lparr> order := int (last_order hits p) \<rparr>) hits
     in setQueue h1 token reordered)"

definition clearQueue :: "Host \<Rightarrow> Token \<Rightarrow> bool \<times> Host" where
  "clearQueue h token = setQueue h token []"

definition isQueueEnabled :: "Host \<Rightarrow> Token \<Rightarrow> bool" where
  "isQueueEnabled h token =
    (case getFlag h token of None \<Rightarrow> False | Some qd \<Rightarrow> queue_enabled qd)"

text \<open>
  \<open>setQueueEnabled\<close>: \<open>getFlag\<close> hands out the stored object itself, so the assignment
  \<open>queueData.enabled = enabled\<close> is already seen in the flag when \<open>setFlag\<close> is called,
  and stays there when \<open>setFlag\<close> throws. Without a stored object the assignment is to
  a new one, which only \<open>setFlag\<close> stores.
\<close>

definition setQueueEnabled :: "Host \<Rightarrow> Token \<Rightarrow> bool \<Rightarrow> bool \<times> Host" where
  "setQueueEnabled h token en =
    (case getFlag h token of
       None \<Rightarrow>
         (case setFlag h token \<lparr> version = ''1.0.0'', queue_enabled = en, actions = [] \<rparr> of
            Inr h' \<Rightarrow> (True, h')
          | Inl e \<Rightarrow> (False, h))
     | Some qd \<Rightarrow>
         (let queueData = qd\<lparr> queue_enabled := en \<rparr>;
              h0 = h\<lparr> flags := (flags h)(token_id token \<mapsto> queueData) \<rparr>
          in case setFlag h0 token queueData of
               Inr h' \<Rightarrow> (True, h')
             | Inl e \<Rightarrow> (False, h0)))"

text \<open>
  \<open>queue.sort((a, b) => a.order - b.order)\<close>: the sort of the language is stable, as
  \<open>sort_key\<close> is.
\<close>

definition getSortedActions :: "Host \<Rightarrow> Token \<Rightarrow> ActionQueueItem list \<times> Host" where
  "getSortedActions h token = (let (queue, h1) = getQueue h token in (sort_key order queue, h1))"

definition getEnabledActions :: "Host \<Rightarrow> Token \<Rightarrow> ActionQueueItem list \<times> Host" where
  "getEnabledActions h token =
    (let (sorted, h1) = getSortedActions h token in (filter enabled sorted, h1))"

definition duplicateAction :: "Host \<Rightarrow> Token \<Rightarrow> string \<Rightarrow> bool \<times> Host" where
  "duplicateAction h token actionId =
    (let (queue, h1) = getQueue h token
     in case find_pos (\<lambda>a. id' a = actionId) queue of
          None \<Rightarrow> (False, h1)
        | Some p \<Rightarrow>
            (let action = queue ! p;
                 (duplicate, g1) = fromObject (toObject action) (rng h1);
                 (i, g2) = randomID g1;
                 duplicate' = duplicate\<lparr> id' := i, name := name action @ '' (Copy)'',
                                          order := int (length queue) \<rparr>
             in setQueue (h1\<lparr> rng := g2 \<rparr>) token (queue @ [duplicate'])))"

text \<open>
  JSON text. \<open>JSON.stringify\<close> and \<open>JSON.parse\<close> belong to the language: a text is
  either malformed (\<open>JSON.parse\<close> throws) or denotes a document, and parsing the text of
  a document gives the document back. In a parsed document \<open>actions\<close> is an array or
  not; an element of the array is an object or \<open>null\<close>.
\<close>

datatype ActionsField = NotAnArray | Array "ActionObject option list"

record QueueDocument =
  doc_version :: "string option"
  doc_tokenName :: "string option"
  doc_actions :: ActionsField

datatype JsonText = Malformed | Json QueueDocument

definition JSON_stringify :: "QueueDocument \<Rightarrow> JsonText" where
  "JSON_stringify d = Json d"

definition JSON_parse :: "JsonText \<Rightarrow> exn + QueueDocument" where
  "JSON_parse t = (case t of Malformed \<Rightarrow> Inl (SyntaxError ''Unexpected token'') | Json d \<Rightarrow> Inr d)"

definition exportQueue :: "Host \<Rightarrow> Token \<Rightarrow> JsonText \<times> Host" where
  "exportQueue h token =
    (let (queue, h1) = getQueue h token
     in (JSON_stringify \<lparr> doc_version = Some ''1.0.0'',
                           doc_tokenName = Some (token_name token),
                           doc_actions = Array (map (\<lambda>a. Some (toObject a)) queue) \<rparr>, h1))"

text \<open>
  \<open>data.actions.map(a => ActionQueueItem.fromObject(a))\<close> in \<open>importQueue\<close>: the
  constructor reads \<open>data.id\<close>, which throws on \<open>null\<close>.
\<close>

fun importObjects :: "ActionObject option list \<Rightarrow> idgen \<Rightarrow> (exn + ActionQueueItem list) \<times> idgen" where
  "importObjects [] g = (Inr [], g)"
| "importObjects (None # ds) g = (Inl (TypeError ''Cannot read properties of null''), g)"
| "importObjects (Some d # ds) g =
    (let (a, g1) = fromObject d g
     in case importObjects ds g1 of
          (Inl e, g2) \<Rightarrow> (Inl e, g2)
        | (Inr as, g2) \<Rightarrow> (Inr (a # as), g2))"

text \<open>\<open>xs.forEach((a, idx) => { a.id = randomID(); a.order = start + idx })\<close>\<close>

fun newIds :: "nat \<Rightarrow> ActionQueueItem list \<Rightarrow> idgen \<Rightarrow> ActionQueueItem list \<times> idgen" where
  "newIds start [] g = ([], g)"
| "newIds start (a # as) g =
    (let (i, g1) = randomID g; (as', g2) = newIds (Suc start) as g1
     in (a\<lparr> id' := i, order := int start \<rparr> # as', g2))"

definition importQueue :: "Host \<Rightarrow> Token \<Rightarrow> JsonText \<Rightarrow> bool \<Rightarrow> bool \<times> Host" where
  "importQueue h token jsonString append' =
    (case JSON_parse jsonString of
       Inl e \<Rightarrow> (False, h)
     | Inr d \<Rightarrow>
        (case doc_actions d of
           NotAnArray \<Rightarrow> (False, h)
         | Array objs \<Rightarrow>
            (case importObjects objs (rng h) of
               (Inl e, g1) \<Rightarrow> (False, h\<lparr> rng := g1 \<rparr>)
             | (Inr imported, g1) \<Rightarrow>
                 (if append'
                  then (let (queue, h2) = getQueue (h\<lparr> rng := g1 \<rparr>) token;
                            (imported', g3) = newIds (length queue) imported (rng h2)
                        in setQueue (h2\<lparr> rng := g3 \<rparr>) token (queue @ imported'))
                  else (let (queue, g3) = newIds 0 imported g1
                        in setQueue (h\<lparr> rng := g3 \<rparr>) token queue)))))"

section \<open>Action executor\<close>

subsection \<open>Results, run context and collaborators\<close>

text \<open>
  The result object of a dispatch: \<open>{success, type, hit, damage, message, error}\<close>; a
  property that a result does not have is \<open>None\<close>.
\<close>

record Outcome =
  success :: bool
  result_type :: "string option"
  hit :: "bool option"
  damage :: "int option"
  result_message :: "string option"
  error :: "string option"

definition failure :: "string \<Rightarrow> Outcome" where
  "failure msg = \<lparr> success = False, result_type = None, hit = None, damage = None,
                   result_message = None, error = Some msg \<rparr>"

definition done_with :: "string \<Rightarrow> Outcome" where
  "done_with msg = \<lparr> success = True, result_type = None, hit = None, damage = None,
                     result_message = Some msg, error = None \<rparr>"

text \<open>
  The \<open>context\<close> of a run: \<open>{actor: token.actor, token, combat: game.combat}\<close>; the
  program never reads it again, and \<open>combat\<close> is left out here.
\<close>

record Context =
  ctx_actor :: Actor
  ctx_token :: Token

text \<open>
  The object that \<open>executeQueue\<close> puts into \<open>currentWorkflow\<close> has the properties
  \<open>token\<close>, \<open>actions\<close>, \<open>results\<close> and \<open>context\<close> and no other. \<open>results\<close> is a
  \<open>Map\<close>: it is kept in insertion order, and setting a key that is there replaces the
  value where it stands. The condition checks read \<open>this.currentWorkflow.actor\<close>: the
  object has no such property, the read gives \<open>undefined\<close>.
\<close>

record Workflow =
  wf_token :: Token
  wf_actions :: "ActionQueueItem list"
  results :: "(string \<times> Outcome) list"
  wf_context :: Context

definition workflow_actor :: "Workflow \<Rightarrow> Actor option" where
  "workflow_actor flow = None"

fun map_set :: "string \<Rightarrow> Outcome \<Rightarrow> (string \<times> Outcome) list \<Rightarrow> (string \<times> Outcome) list" where
  "map_set k v [] = [(k, v)]"
| "map_set k v ((k', v') # rest) =
    (if k' = k then (k, v) # rest else (k', v') # map_set k v rest)"

text \<open>
  What a run does to the outside is kept as a trace, in the order it happens: the calls
  of \<open>debugLog\<close>, \<open>console.error\<close> and \<open>ui.notifications\<close>, and every write to the
  ledger together with the action it is made for.
\<close>

datatype Event =
    Log_Turn nat string
  | Log_AlreadyExecuting
  | Log_Skipping ActionQueueItem
  | Log_Executing ActionQueueItem
  | Log_Stopping
  | Result_Stored ActionQueueItem Outcome
  | Console_Error exn
  | Notify_Info string nat
  | Notify_Error

text \<open>
  The collaborators of the executor, over a state \<open>'w\<close> of the game world that they
  read and change: the movement and the attack system (\<open>None\<close>: not registered in
  \<open>game.tokenAutomation\<close>), \<open>fromUuid\<close>, the item use of MIDI QOL (\<open>None\<close>: module not
  active) and of the item itself. A call returns a result or throws (\<open>Inl\<close>).
\<close>

record Item =
  item_name :: string

record 'w Game =
  movementSystem :: "(Token \<Rightarrow> Payload \<Rightarrow> 'w \<Rightarrow> (exn + Outcome) \<times> 'w) option"
  attackSystem :: "(Token \<Rightarrow> Payload \<Rightarrow> 'w \<Rightarrow> (exn + Outcome) \<times> 'w) option"
  fromUuid :: "string \<Rightarrow> 'w \<Rightarrow> exn + Item option"
  midiQOL :: "(Item \<Rightarrow> 'w \<Rightarrow> (exn + unit) \<times> 'w) option"
  item_use :: "Item \<Rightarrow> 'w \<Rightarrow> (exn + unit) \<times> 'w"
  isGM :: bool
  actionQueueManager :: bool

text \<open>The fields of \<open>ActionExecutor\<close>, the world and the trace.\<close>

record 'w Executor =
  executing :: bool
  currentWorkflow :: "Workflow option"
  world :: 'w
  events :: "Event list"

definition emit :: "Event \<Rightarrow> 'w Executor \<Rightarrow> 'w Executor" where
  "emit e s = s\<lparr> events := events s @ [e] \<rparr>"

definition null_read :: exn where
  "null_read = TypeError ''Cannot read properties of null''"

definition undefined_read :: exn where
  "undefined_read = TypeError ''Cannot read properties of undefined''"

subsection \<open>Dispatch\<close>

definition executeMovement :: "'w Game \<Rightarrow> ActionQueueItem \<Rightarrow> 'w Executor \<Rightarrow> (exn + Outcome) \<times> 'w Executor" where
  "executeMovement g action s =
    (case movementSystem g of
       None \<Rightarrow> (Inr (failure ''Movement system not available''), s)
     | Some run \<Rightarrow>
        (case currentWorkflow s of
           None \<Rightarrow> (Inl null_read, s)
         | Some flow \<Rightarrow> (let (r, w) = run (wf_token flow) (data action) (world s)
                       in (r, s\<lparr> world := w \<rparr>))))"

definition executeAttack :: "'w Game \<Rightarrow> ActionQueueItem \<Rightarrow> 'w Executor \<Rightarrow> (exn + Outcome) \<times> 'w Executor" where
  "executeAttack g action s =
    (case attackSystem g of
       None \<Rightarrow> (Inr (failure ''Attack system not available''), s)
     | Some run \<Rightarrow>
        (case currentWorkflow s of
           None \<Rightarrow> (Inl null_read, s)
         | Some flow \<Rightarrow> (let (r, w) = run (wf_token flow) (data action) (world s)
                       in (r, s\<lparr> world := w \<rparr>))))"

definition executeSpell :: "'w Game \<Rightarrow> ActionQueueItem \<Rightarrow> 'w Executor \<Rightarrow> (exn + Outcome) \<times> 'w Executor" where
  "executeSpell g action s = executeAttack g action s"

definition executeItem :: "'w Game \<Rightarrow> ActionQueueItem \<Rightarrow> 'w Executor \<Rightarrow> (exn + Outcome) \<times> 'w Executor" where
  "executeItem g action s =
    (if \<not> truthy (itemUuid (data action)) then (Inr (failure ''No item specified''), s)
     else
       (case fromUuid g (or_else (itemUuid (data action)) []) (world s) of
          Inl e \<Rightarrow> (Inl e, s)
        | Inr None \<Rightarrow> (Inr (failure ''Item not found''), s)
        | Inr (Some item) \<Rightarrow>
            (let (r, w) = (case midiQOL g of
                             Some completeItemUse \<Rightarrow> completeItemUse item (world s)
                           | None \<Rightarrow> item_use g item (world s))
             in case r of
                  Inl e \<Rightarrow> (Inr (failure (message e)), s\<lparr> world := w \<rparr>)
                | Inr u \<Rightarrow> (Inr (done_with (''Used '' @ item_name item)), s\<lparr> world := w \<rparr>))))"

text \<open>The \<open>switch\<close> inside the \<open>try\<close> of \<open>executeAction\<close>, and \<open>executeAction\<close> with its \<open>catch\<close>.\<close>

definition dispatch :: "'w Game \<Rightarrow> ActionQueueItem \<Rightarrow> 'w Executor \<Rightarrow> (exn + Outcome) \<times> 'w Executor" where
  "dispatch g action s =
    (if type action = MOVEMENT then executeMovement g action s
     else if type action = ATTACK then executeAttack g action s
     else if type action = SPELL then executeSpell g action s
     else if type action = ITEM then executeItem g action s
     else if type action = END_TURN then (Inr (done_with ''Turn ended''), s)
     else (Inr (failure ''Unknown action type''), s))"

definition executeAction :: "'w Game \<Rightarrow> ActionQueueItem \<Rightarrow> 'w Executor \<Rightarrow> Outcome \<times> 'w Executor" where
  "executeAction g action s =
    (case dispatch g action (emit (Log_Executing action) s) of
       (Inr result, s1) \<Rightarrow> (result, s1)
     | (Inl e, s1) \<Rightarrow> (failure (message e), emit (Console_Error e) s1))"

subsection \<open>Strings and numbers of the condition checks\<close>

text \<open>
  Characters are bytes here: \<open>\s\<close> is taken over the ASCII white space, \<open>\d\<close> is
  \<open>0\<close> to \<open>9\<close>.
\<close>

definition is_space :: "char \<Rightarrow> bool" where
  "is_space c = (c \<in> set [CHR '' '', CHR 0x09, CHR 0x0A, CHR 0x0B, CHR 0x0C, CHR 0x0D])"

definition is_digit :: "char \<Rightarrow> bool" where
  "is_digit c = (c \<in> set ''0123456789'')"

definition is_hex :: "char \<Rightarrow> bool" where
  "is_hex c = (c \<in> set ''0123456789abcdefABCDEF'')"

definition digit_val :: "char \<Rightarrow> nat" where
  "digit_val c =
    (if is_digit c then of_char c - 48
     else if c \<in> set ''abcdef'' then of_char c - 87
     else of_char c - 55)"

definition parse_digits :: "nat \<Rightarrow> string \<Rightarrow> nat" where
  "parse_digits radix ds = foldl (\<lambda>n c. radix * n + digit_val c) 0 ds"

text \<open>
  \<open>parseInt(str)\<close> without a radix: white space, a sign, then hexadecimal digits after
  \<open>0x\<close> and decimal digits otherwise, as far as they go; \<open>None\<close> is \<open>NaN\<close>.
\<close>

definition parseInt :: "string \<Rightarrow> int option" where
  "parseInt str =
    (let t = dropWhile is_space str;
         neg = (take 1 t = ''-'');
         u = (if take 1 t = ''-'' \<or> take 1 t = ''+'' then drop 1 t else t);
         hex = (take 2 u = ''0x'' \<or> take 2 u = ''0X'');
         ds = (if hex then takeWhile is_hex (drop 2 u) else takeWhile is_digit u);
         n = int (parse_digits (if hex then 16 else 10) ds)
     in if ds = [] then None else Some (if neg then - n else n))"

definition startsWith :: "string \<Rightarrow> string \<Rightarrow> bool" where
  "startsWith str start = (take (length start) str = start)"

fun split_on :: "char \<Rightarrow> string \<Rightarrow> string list" where
  "split_on d [] = [[]]"
| "split_on d (c # cs) =
    (if c = d then [] # split_on d cs
     else (case split_on d cs of [] \<Rightarrow> [[c]] | x # xs \<Rightarrow> (c # x) # xs))"

definition nth_opt :: "'a list \<Rightarrow> nat \<Rightarrow> 'a option" where
  "nth_opt xs n = (if n < length xs then Some (xs ! n) else None)"

fun show_nat :: "nat \<Rightarrow> string" where
  "show_nat n =
    (if n < 10 then [char_of (48 + n)] else show_nat (n div 10) @ [char_of (48 + n mod 10)])"

definition show_number :: "int option \<Rightarrow> string" where
  "show_number v =
    (case v of
       None \<Rightarrow> ''NaN''
     | Some i \<Rightarrow> if i < 0 then CHR ''-'' # show_nat (nat (- i)) else show_nat (nat i))"

text \<open>
  The numbers of \<open>checkHPThreshold\<close> are doubles: \<open>NaN\<close>, the two infinities, and the
  finite ones, each a rational. \<open>to_double\<close> rounds a rational to the nearest double,
  ties to the even significand: 53 bits at the exponent of the number, not below the
  exponent -1022 (subnormal numbers), and infinite from \<open>2 ^ 1024\<close> on. Quotient and
  product are the exact ones rounded; the sign of a zero is not kept (no comparison reads
  it). \<open>exponent q\<close> is the \<open>e\<close> with \<open>2 ^ e \<le> |q| < 2 ^ (e + 1)\<close>.
\<close>

datatype number = NaN | NegInfinity | Finite rat | PosInfinity

function floor_log2 :: "int \<Rightarrow> int" where
  "floor_log2 m = (if m < 2 then 0 else 1 + floor_log2 (m div 2))"
  by pat_completeness auto
termination
  by (relation "measure nat") auto

function doublings :: "int \<Rightarrow> int \<Rightarrow> int \<Rightarrow> int" where
  "doublings n d k = (if n \<le> 0 \<or> d \<le> n then k else doublings (2 * n) d (k + 1))"
  by pat_completeness auto
termination
  by (relation "measure (\<lambda>(n, d, k). nat (d - n))") auto

definition pow2 :: "int \<Rightarrow> rat" where
  "pow2 e = (if 0 \<le> e then 2 ^ nat e else 1 / 2 ^ nat (- e))"

definition exponent :: "rat \<Rightarrow> int" where
  "exponent q =
    (let (n, d) = quotient_of \<bar>q\<bar>
     in if d \<le> n then floor_log2 (n div d) else - doublings n d 0)"

definition to_double :: "rat \<Rightarrow> number" where
  "to_double q =
    (if q = 0 then Finite 0
     else
       (let ulp = pow2 (max (exponent q) (- 1022) - 52);
            m = \<bar>q\<bar> / ulp;
            f = \<lfloor>m\<rfloor>;
            r = (if m - of_int f < 1 / 2 then f
                 else if 1 / 2 < m - of_int f then f + 1
                 else if even f then f else f + 1);
            v = of_int r * ulp
        in if 1024 \<le> exponent v then (if 0 < q then PosInfinity else NegInfinity)
           else Finite (if 0 < q then v else - v)))"

definition divide_num :: "number \<Rightarrow> number \<Rightarrow> number" where
  "divide_num x y =
    (case (x, y) of
       (Finite a, Finite b) \<Rightarrow>
         (if b = 0 then (if a = 0 then NaN else if 0 < a then PosInfinity else NegInfinity)
          else to_double (a / b))
     | (NaN, _) \<Rightarrow> NaN
     | (_, NaN) \<Rightarrow> NaN
     | (Finite a, _) \<Rightarrow> Finite 0
     | (PosInfinity, Finite b) \<Rightarrow> (if 0 \<le> b then PosInfinity else NegInfinity)
     | (NegInfinity, Finite b) \<Rightarrow> (if 0 \<le> b then NegInfinity else PosInfinity)
     | (_, _) \<Rightarrow> NaN)"

definition times_num :: "number \<Rightarrow> number \<Rightarrow> number" where
  "times_num x y =
    (case (x, y) of
       (Finite a, Finite b) \<Rightarrow> to_double (a * b)
     | (NaN, _) \<Rightarrow> NaN
     | (_, NaN) \<Rightarrow> NaN
     | (PosInfinity, Finite b) \<Rightarrow>
         (if b = 0 then NaN else if 0 < b then PosInfinity else NegInfinity)
     | (NegInfinity, Finite b) \<Rightarrow>
         (if b = 0 then NaN else if 0 < b then NegInfinity else PosInfinity)
     | (Finite a, PosInfinity) \<Rightarrow>
         (if a = 0 then NaN else if 0 < a then PosInfinity else NegInfinity)
     | (Finite a, NegInfinity) \<Rightarrow>
         (if a = 0 then NaN else if 0 < a then NegInfinity else PosInfinity)
     | (_, _) \<Rightarrow> (if x = y then PosInfinity else NegInfinity))"

definition less_num :: "number \<Rightarrow> number \<Rightarrow> bool" where
  "less_num x y =
    (case (x, y) of
       (NaN, _) \<Rightarrow> False
     | (_, NaN) \<Rightarrow> False
     | (Finite p, Finite q) \<Rightarrow> p < q
     | (NegInfinity, NegInfinity) \<Rightarrow> False
     | (NegInfinity, _) \<Rightarrow> True
     | (_, PosInfinity) \<Rightarrow> (x \<noteq> PosInfinity)
     | (_, _) \<Rightarrow> False)"

definition less_eq_num :: "number \<Rightarrow> number \<Rightarrow> bool" where
  "less_eq_num x y = (x \<noteq> NaN \<and> y \<noteq> NaN \<and> (x = y \<or> less_num x y))"

definition number_of :: "int option \<Rightarrow> number" where
  "number_of v = (case v of None \<Rightarrow> NaN | Some i \<Rightarrow> to_double (of_int i))"

text \<open>
  \<open>value.match(/([<>]=?)\s*(\d+)/)\<close>: the first position of the string where the
  pattern matches, with the operator and the digits it captures. \<open>match_here\<close> matches
  at the start of its argument: after \<open><\<close> or \<open>>\<close> an \<open>=\<close> is taken when it is
  there, then all white space, then all digits, of which there must be one (giving
  back the \<open>=\<close> or white space cannot help: neither is a digit).
\<close>

definition match_here :: "string \<Rightarrow> (string \<times> string) option" where
  "match_here str =
    (case str of
       [] \<Rightarrow> None
     | c # cs \<Rightarrow>
        (if c = CHR ''<'' \<or> c = CHR ''>'' then
           (let operator = (if take 1 cs = ''='' then [c, CHR ''=''] else [c]);
                after = (if take 1 cs = ''='' then drop 1 cs else cs);
                threshold = takeWhile is_digit (dropWhile is_space after)
            in if threshold = [] then None else Some (operator, threshold))
         else None))"

fun regex_match :: "string \<Rightarrow> (string \<times> string) option" where
  "regex_match [] = None"
| "regex_match (c # cs) =
    (case match_here (c # cs) of Some m \<Rightarrow> Some m | None \<Rightarrow> regex_match cs)"

subsection \<open>Conditions\<close>

definition checkTargetInRange :: "ActionQueueItem \<Rightarrow> 'w Executor \<Rightarrow> exn + bool" where
  "checkTargetInRange action s = Inr True"

definition checkResourceAvailable :: "ActionQueueItem \<Rightarrow> 'w Executor \<Rightarrow> exn + bool" where
  "checkResourceAvailable action s =
    (let v = cond_value (conditions action) in
     if \<not> truthy v then Inr True
     else
       (case currentWorkflow s of
          None \<Rightarrow> Inl null_read
        | Some flow \<Rightarrow>
           (let str = or_else v [] in
            if startsWith str ''spell-slot-'' then
              (case workflow_actor flow of
                 None \<Rightarrow> Inl undefined_read
               | Some actor' \<Rightarrow>
                  (let level = (case nth_opt (split_on CHR ''-'' str) 2 of
                                  None \<Rightarrow> None | Some seg \<Rightarrow> parseInt seg)
                   in case spells actor' (''spell'' @ show_number level) of
                        None \<Rightarrow> Inr False
                      | Some n \<Rightarrow> Inr (0 < n)))
            else if startsWith str ''resource-'' then
              (case workflow_actor flow of
                 None \<Rightarrow> Inl undefined_read
               | Some actor' \<Rightarrow>
                  (case resources actor' (or_else (nth_opt (split_on CHR ''-'' str) 1) ''undefined'') of
                     None \<Rightarrow> Inr False
                   | Some n \<Rightarrow> Inr (0 < n)))
            else Inr True)))"

text \<open>
  \<open>checkHPThreshold\<close>: first the value, then the actor, then, in \<open>compare_hp\<close>, the
  percentage, the pattern and the comparison.
\<close>

definition compare_hp :: "Actor \<Rightarrow> string \<Rightarrow> bool" where
  "compare_hp actor' str =
    (let hpPercent = times_num (divide_num (number_of (Some (hp_value actor')))
                                            (number_of (Some (hp_max actor'))))
                               (Finite 100) in
     case regex_match str of
       None \<Rightarrow> True
     | Some (operator, threshold) \<Rightarrow>
        (let thresholdNum = number_of (parseInt threshold) in
         if operator = ''<'' then less_num hpPercent thresholdNum
         else if operator = ''<='' then less_eq_num hpPercent thresholdNum
         else if operator = ''>'' then less_num thresholdNum hpPercent
         else if operator = ''>='' then less_eq_num thresholdNum hpPercent
         else True))"

definition checkHPThreshold :: "ActionQueueItem \<Rightarrow> 'w Executor \<Rightarrow> exn + bool" where
  "checkHPThreshold action s =
    (let v = cond_value (conditions action) in
     if \<not> truthy v then Inr True
     else
       (case currentWorkflow s of
          None \<Rightarrow> Inl null_read
        | Some flow \<Rightarrow>
           (case workflow_actor flow of
              None \<Rightarrow> Inl undefined_read
            | Some actor' \<Rightarrow> Inr (compare_hp actor' (or_else v [])))))"

text \<open>
  The loop of \<open>checkPreviousAttackResult\<close> over the ledger, in its order, for the
  condition type \<open>t\<close> of the action.
\<close>

fun scan_results :: "string \<Rightarrow> (string \<times> Outcome) list \<Rightarrow> bool" where
  "scan_results t [] = True"
| "scan_results t ((i, result) # rest) =
    (if result_type result = Some ''attack'' then
       (if t = ATTACK_HIT then hit result = Some True
        else if t = ATTACK_MISS then hit result = Some False
        else scan_results t rest)
     else scan_results t rest)"

definition checkPreviousAttackResult :: "ActionQueueItem \<Rightarrow> 'w Executor \<Rightarrow> exn + bool" where
  "checkPreviousAttackResult action s =
    (case currentWorkflow s of
       None \<Rightarrow> Inl null_read
     | Some flow \<Rightarrow> Inr (scan_results (cond_type (conditions action)) (results flow)))"

definition shouldExecute :: "ActionQueueItem \<Rightarrow> 'w Executor \<Rightarrow> exn + bool" where
  "shouldExecute action s =
    (let t = cond_type (conditions action) in
     if t = ALWAYS then Inr True
     else if t = TARGET_IN_RANGE then checkTargetInRange action s
     else if t = RESOURCE_AVAILABLE then checkResourceAvailable action s
     else if t = HP_THRESHOLD then checkHPThreshold action s
     else if t = ATTACK_HIT \<or> t = ATTACK_MISS then checkPreviousAttackResult action s
     else Inr True)"

subsection \<open>The run\<close>

text \<open>
  \<open>this.currentWorkflow.results.set(action.id, result)\<close> in the main loop;
  \<open>actions.find(a => a.id === target)\<close> and the call of \<open>executeAction\<close> on what it
  finds, whose result is not used. The pause between two actions changes nothing here.
\<close>

definition record_result :: "ActionQueueItem \<Rightarrow> Outcome \<Rightarrow> Workflow \<Rightarrow> 'w Executor \<Rightarrow> 'w Executor" where
  "record_result action result flow s =
    emit (Result_Stored action result)
      (s\<lparr> currentWorkflow :=
           Some (flow\<lparr> results := map_set (id' action) result (results flow) \<rparr>) \<rparr>)"

definition branch :: "'w Game \<Rightarrow> ActionQueueItem list \<Rightarrow> string option \<Rightarrow> 'w Executor \<Rightarrow> 'w Executor" where
  "branch g as target s =
    (case find (\<lambda>a. Some (id' a) = target) as of
       None \<Rightarrow> s
     | Some nextAction \<Rightarrow> snd (executeAction g nextAction s))"

fun executeLoop ::
  "'w Game \<Rightarrow> ActionQueueItem list \<Rightarrow> ActionQueueItem list \<Rightarrow> 'w Executor \<Rightarrow> exn option \<times> 'w Executor" where
  "executeLoop g as [] s = (None, s)"
| "executeLoop g as (action # rest) s =
    (case shouldExecute action s of
       Inl e \<Rightarrow> (Some e, s)
     | Inr False \<Rightarrow> executeLoop g as rest (emit (Log_Skipping action) s)
     | Inr True \<Rightarrow>
        (case executeAction g action s of
           (result, s1) \<Rightarrow>
             (case currentWorkflow s1 of
                None \<Rightarrow> (Some null_read, s1)
              | Some flow \<Rightarrow>
                 (let s2 = record_result action result flow s1;
                      s3 = (if success result \<and> truthy (onSuccess action)
                            then branch g as (onSuccess action) s2
                            else if \<not> success result \<and> truthy (onFailure action)
                            then branch g as (onFailure action) s2
                            else s2)
                  in executeLoop g as rest s3))))"

definition executeQueue :: "'w Game \<Rightarrow> Token \<Rightarrow> ActionQueueItem list \<Rightarrow> 'w Executor \<Rightarrow> 'w Executor" where
  "executeQueue g token as s =
    (if executing s then emit Log_AlreadyExecuting s
     else
       (let s0 = s\<lparr> executing := True,
                    currentWorkflow :=
                      Some \<lparr> wf_token = token, wf_actions = as, results = [],
                             wf_context = \<lparr> ctx_actor = actor token, ctx_token = token \<rparr> \<rparr> \<rparr>;
            s2 = (case executeLoop g as as s0 of
                    (None, s1) \<Rightarrow> emit (Notify_Info (token_name token) (length as)) s1
                  | (Some e, s1) \<Rightarrow> emit Notify_Error (emit (Console_Error e) s1))
        in s2\<lparr> executing := False, currentWorkflow := None \<rparr>))"

definition stopExecution :: "'w Executor \<Rightarrow> 'w Executor" where
  "stopExecution s =
    (if executing s then (emit Log_Stopping s)\<lparr> executing := False, currentWorkflow := None \<rparr>
     else s)"

record Status =
  status_executing :: bool
  currentToken :: "string option"
  actionsCompleted :: nat

definition getStatus :: "'w Executor \<Rightarrow> Status" where
  "getStatus s =
    \<lparr> status_executing = executing s,
      currentToken = (case currentWorkflow s of
                        None \<Rightarrow> None
                      | Some flow \<Rightarrow> or_null (Some (token_name (wf_token flow)))),
      actionsCompleted = (case currentWorkflow s of
                            None \<Rightarrow> 0
                          | Some flow \<Rightarrow> length (results flow)) \<rparr>"

subsection \<open>The turn trigger\<close>

text \<open>
  \<open>onCombatTurn(combat, updateData, options)\<close>: \<open>updateData.turn\<close> is an index or
  missing, \<open>combat.combatant\<close> and its \<open>token.object\<close> can be missing.
\<close>

record Combatant =
  token_object :: "Token option"

record Combat =
  combatant :: "Combatant option"

record UpdateData =
  turn :: "nat option"

definition onCombatTurn ::
  "'w Game \<Rightarrow> Combat \<Rightarrow> UpdateData \<Rightarrow> Host \<times> 'w Executor \<Rightarrow> Host \<times> 'w Executor" where
  "onCombatTurn g combat updateData hs =
    (case hs of (h, s) \<Rightarrow>
      (if turn updateData = None \<or> turn updateData = Some 0 then (h, s)
       else
         (case combatant combat of
            None \<Rightarrow> (h, s)
          | Some c \<Rightarrow>
             (case token_object c of
                None \<Rightarrow> (h, s)
              | Some token \<Rightarrow>
                 (if \<not> isOwner token \<and> \<not> isGM g then (h, s)
                  else if \<not> actionQueueManager g then (h, s)
                  else if \<not> isQueueEnabled h token then (h, s)
                  else
                    (case getEnabledActions h token of
                       (as, h1) \<Rightarrow>
                         (if as = [] then (h1, s)
                          else (h1, executeQueue g token as
                                      (emit (Log_Turn (length as) (token_name token)) s)))))))))"

section \<open>Notions used in the properties\<close>

text \<open>
  Two actions with the same content: all fields but \<open>id\<close> and \<open>order\<close> agree. An action
  is normalised when the constructor has made it: no empty type or name, no empty
  branch target.
\<close>

definition same_content :: "ActionQueueItem \<Rightarrow> ActionQueueItem \<Rightarrow> bool" where
  "same_content a b =
    (type a = type b \<and> conditions a = conditions b \<and> data a = data b \<and> name a = name b \<and>
     description a = description b \<and> enabled a = enabled b \<and> onSuccess a = onSuccess b \<and>
     onFailure a = onFailure b)"

definition normalised :: "ActionQueueItem \<Rightarrow> bool" where
  "normalised a =
    (type a \<noteq> [] \<and> name a \<noteq> [] \<and> onSuccess a \<noteq> Some [] \<and> onFailure a \<noteq> Some [])"

text \<open>The actions for which a trace writes a result into the ledger, in order.\<close>

fun stored_actions :: "Event list \<Rightarrow> ActionQueueItem list" where
  "stored_actions [] = []"
| "stored_actions (Result_Stored a r # es) = a # stored_actions es"
| "stored_actions (e # es) = stored_actions es"

text \<open>The actions that a trace dispatches (the calls of \<open>executeAction\<close>), in order.\<close>

fun dispatched_actions :: "Event list \<Rightarrow> ActionQueueItem list" where
  "dispatched_actions [] = []"
| "dispatched_actions (Log_Executing a # es) = a # dispatched_actions es"
| "dispatched_actions (e # es) = dispatched_actions es"

text \<open>
  The ids that the objects of a list have, and the ids in the stored queue of a token.
\<close>

definition ids_of :: "ActionObject list \<Rightarrow> string set" where
  "ids_of objs = set (List.map_filter obj_id objs)"

definition previous_ids :: "Host \<Rightarrow> Token \<Rightarrow> string set" where
  "previous_ids h token = (case getFlag h token of None \<Rightarrow> {} | Some qd \<Rightarrow> ids_of (actions qd))"

section \<open>Scenarios\<close>

text \<open>
  A token with a writable flag, its actor at 40 of 100 hit points, and a game with an
  attack system only: an attack fails when the payload says \<open>fail\<close>, throws when it says
  \<open>throw\<close>, and hits when it says \<open>hit\<close>. The world counts the attacks.
\<close>

definition demo_actor :: Actor where
  "demo_actor = \<lparr> hp_value = 40, hp_max = 100, spells = (\<lambda>k. None), resources = (\<lambda>k. None) \<rparr>"

definition demo_token :: Token where
  "demo_token = \<lparr> token_id = ''tok1'', token_name = ''Goblin'', isOwner = True,
                   actor = demo_actor, flagWritable = True \<rparr>"

definition attack_stub :: "Token \<Rightarrow> Payload \<Rightarrow> nat \<Rightarrow> (exn + Outcome) \<times> nat" where
  "attack_stub token p w =
    (if details p = ''throw'' then (Inl (Error ''boom''), Suc w)
     else (Inr \<lparr> success = (details p \<noteq> ''fail''), result_type = Some ''attack'',
                 hit = Some (details p = ''hit''), damage = Some 0,
                 result_message = None, error = None \<rparr>, Suc w))"

definition demo_game :: "nat Game" where
  "demo_game = \<lparr> movementSystem = None, attackSystem = Some attack_stub,
                  fromUuid = (\<lambda>u w. Inr None), midiQOL = None,
                  item_use = (\<lambda>i w. (Inr (), w)), isGM = False, actionQueueManager = True \<rparr>"

text \<open>An attack action with the given id, order, enabled flag, condition, payload and branches.\<close>

definition demo_action ::
  "string \<Rightarrow> int \<Rightarrow> bool \<Rightarrow> Conditions \<Rightarrow> string \<Rightarrow> string option \<Rightarrow> string option \<Rightarrow> ActionQueueItem" where
  "demo_action i n en c det ons onf =
    \<lparr> id' = i, type = ATTACK, order = n, enabled = en, name = i, description = [],
      conditions = c, data = \<lparr> itemUuid = Some ''sword'', details = det \<rparr>,
      onSuccess = ons, onFailure = onf \<rparr>"

definition always :: Conditions where
  "always = \<lparr> cond_type = ALWAYS, cond_value = None \<rparr>"

definition idle :: "nat Executor" where
  "idle = \<lparr> executing = False, currentWorkflow = None, world = 0, events = [] \<rparr>"

definition demo_host :: "ActionQueueItem list \<Rightarrow> Host" where
  "demo_host q =
    \<lparr> flags = (\<lambda>k. if k = ''tok1''
                   then Some \<lparr> version = ''1.0.0'', queue_enabled = True, actions = map toObject q \<rparr>
                   else None),
      rng = (\<lambda>n. ''r'' @ show_nat n) \<rparr>"

definition demo_combat :: Combat where
  "demo_combat = \<lparr> combatant = Some \<lparr> token_object = Some demo_token \<rparr> \<rparr>"

text \<open>
  A payload of two objects, the first without id, and its document; and the host in
  which the queue of the token holds one action and has been disabled.
\<close>

definition demo_payload :: "ActionObject list" where
  "demo_payload =
    [\<lparr> obj_id = None, obj_type = Some ''attack'', obj_order = None, obj_enabled = None,
       obj_name = None, obj_description = None, obj_conditions = None, obj_data = None,
       obj_onSuccess = None, obj_onFailure = None \<rparr>,
     \<lparr> obj_id = Some ''old'', obj_type = Some ''item'', obj_order = Some 7, obj_enabled = Some False,
       obj_name = Some ''Potion'', obj_description = None, obj_conditions = None, obj_data = None,
       obj_onSuccess = Some ''gone'', obj_onFailure = None \<rparr>]"

definition demo_document :: QueueDocument where
  "demo_document = \<lparr> doc_version = Some ''1.0.0'', doc_tokenName = Some ''Orc'',
                      doc_actions = Array (map Some demo_payload) \<rparr>"

definition demo_updates :: Updates where
  "demo_updates =
    \<lparr> upd_id = None, upd_type = None, upd_order = Some 3, upd_enabled = Some False,
      upd_name = None, upd_description = None, upd_conditions = None, upd_data = None,
      upd_onSuccess = Some None, upd_onFailure = None \<rparr>"

definition disabled_host :: Host where
  "disabled_host =
    snd (setQueueEnabled (demo_host [demo_action ''a'' 0 True always ''hit'' None None])
           demo_token False)"

text \<open>
  A run in progress for the token with the given ledger; actions that branch, that are
  disabled, that carry a condition, that throw, that have a type outside the dispatch
  table, that use an item; a game in which \<open>fromUuid\<close> throws; and the two results of
  the attack system.
\<close>

definition demo_flow :: "ActionQueueItem list \<Rightarrow> (string \<times> Outcome) list \<Rightarrow> Workflow" where
  "demo_flow as rs =
    \<lparr> wf_token = demo_token, wf_actions = as, results = rs,
      wf_context = \<lparr> ctx_actor = demo_actor, ctx_token = demo_token \<rparr> \<rparr>"

definition running :: "ActionQueueItem list \<Rightarrow> (string \<times> Outcome) list \<Rightarrow> nat Executor" where
  "running as rs =
    \<lparr> executing = True, currentWorkflow = Some (demo_flow as rs), world = 0, events = [] \<rparr>"

definition attack_then_b :: ActionQueueItem where
  "attack_then_b = demo_action ''a'' 0 True always ''hit'' (Some ''b'') None"

definition disabled_b :: ActionQueueItem where
  "disabled_b = demo_action ''b'' 1 False always ''hit'' None None"

definition miss_then_b :: ActionQueueItem where
  "miss_then_b = demo_action ''a'' 0 True always ''miss'' (Some ''b'') None"

definition b_if_hit :: ActionQueueItem where
  "b_if_hit = demo_action ''b'' 1 True \<lparr> cond_type = ATTACK_HIT, cond_value = None \<rparr> ''hit'' None None"

definition potion_if_low :: ActionQueueItem where
  "potion_if_low =
    demo_action ''p'' 0 True \<lparr> cond_type = HP_THRESHOLD, cond_value = Some ''< 50'' \<rparr> ''hit'' None None"

definition throwing_attack :: ActionQueueItem where
  "throwing_attack = demo_action ''t'' 0 True always ''throw'' None None"

definition reaction :: ActionQueueItem where
  "reaction = (demo_action ''r'' 1 True always ''hit'' None None)\<lparr> type := REACTION \<rparr>"

definition lost_item :: ActionQueueItem where
  "lost_item = (demo_action ''i'' 2 True always ''hit'' None None)\<lparr> type := ITEM \<rparr>"

definition broken_game :: "nat Game" where
  "broken_game = demo_game\<lparr> fromUuid := (\<lambda>u w. Inl (Error ''no such document'')) \<rparr>"

definition hit_outcome :: Outcome where
  "hit_outcome = \<lparr> success = True, result_type = Some ''attack'', hit = Some True, damage = Some 0,
                    result_message = None, error = None \<rparr>"

definition miss_outcome :: Outcome where
  "miss_outcome = \<lparr> success = True, result_type = Some ''attack'', hit = Some False, damage = Some 0,
                     result_message = None, error = None \<rparr>"

text \<open>
  A host in which the queue of the token holds one action of order 7; a second token; a
  token whose flag cannot be written; an action whose branch target is in no list.
\<close>

definition crowded_host :: Host where
  "crowded_host = demo_host [demo_action ''x'' 7 True always ''hit'' None None]"

definition other_token :: Token where
  "other_token = demo_token\<lparr> token_id := ''tok2'', token_name := ''Orc'' \<rparr>"

definition locked_token :: Token where
  "locked_token = demo_token\<lparr> token_id := ''tok3'', flagWritable := False \<rparr>"

definition attack_then_gone :: ActionQueueItem where
  "attack_then_gone = demo_action ''a'' 0 True always ''hit'' (Some ''gone'') None"

section \<open>Properties of the queue manager\<close>

subsection \<open>Construction and renumbering\<close>

lemma importObjects_Some:
  "importObjects (map Some ds) g = (Inr (fst (fromObjects ds g)), snd (fromObjects ds g))"
  by (induction ds arbitrary: g) (simp_all add: split_def Let_def)

lemma length_fromObjects: "length (fst (fromObjects ds g)) = length ds"
  by (induction ds arbitrary: g) (simp_all add: split_def Let_def)

lemma length_newIds: "length (fst (newIds start as g)) = length as"
  by (induction as arbitrary: start g) (simp_all add: split_def Let_def)

lemma snd_newIds: "snd (newIds start as g) = (\<lambda>k. g (k + length as))"
  by (induction as arbitrary: start g) (simp_all add: split_def Let_def randomID_def)

lemma upt_0_Suc_map: "[0..<Suc n] = 0 # map Suc [0..<n]"
  by (simp add: upt_conv_Cons map_Suc_upt del: upt_Suc)

lemma ids_newIds: "map id' (fst (newIds start as g)) = map g [0..<length as]"
proof (induction as arbitrary: start g)
  case Nil
  show ?case by simp
next
  case (Cons a as)
  have "map id' (fst (newIds start (a # as) g)) = g 0 # map (\<lambda>k. g (Suc k)) [0..<length as]"
    using Cons.IH [of "Suc start" "\<lambda>k. g (Suc k)"] by (simp add: split_def Let_def randomID_def)
  also have "\<dots> = map g [0..<length (a # as)]"
    by (simp add: upt_0_Suc_map del: upt_Suc)
  finally show ?case .
qed

lemma orders_newIds:
  "map order (fst (newIds start as g)) = map int [start..<start + length as]"
proof (induction as arbitrary: start g)
  case Nil
  show ?case by simp
next
  case (Cons a as)
  have "map order (fst (newIds start (a # as) g)) = int start # map int [Suc start..<Suc start + length as]"
    using Cons.IH [of "Suc start"] by (simp add: split_def Let_def)
  also have "\<dots> = map int [start..<start + length (a # as)]"
    by (simp add: upt_conv_Cons del: upt_Suc)
  finally show ?case .
qed

lemma content_newIds:
  "list_all2 same_content (fst (newIds start as g)) as"
  by (induction as arbitrary: start g) (simp_all add: split_def Let_def same_content_def)

lemma only_id_order_newIds:
  "list_all2 (\<lambda>b a. \<exists>i k. b = a\<lparr> id' := i, order := k \<rparr>) (fst (newIds start as g)) as"
  by (induction as arbitrary: start g) (auto simp add: split_def Let_def)


lemma obj_id_toObject: "map obj_id (map toObject xs) = map (\<lambda>a. Some (id' a)) xs"
  by (simp add: toObject_def)

lemma obj_order_toObject: "map obj_order (map toObject xs) = map (\<lambda>a. Some (order a)) xs"
  by (simp add: toObject_def)

lemma map_Some_eq: "map f xs = map g ys \<Longrightarrow> map (\<lambda>a. Some (f a)) xs = map (\<lambda>k. Some (g k)) ys"
proof -
  assume "map f xs = map g ys"
  then have "map Some (map f xs) = map Some (map g ys)" by simp
  then show ?thesis by (simp add: comp_def)
qed

lemma stored_newIds:
  "list_all2 (\<lambda>s a. \<exists>i k. s = toObject (a\<lparr> id' := i, order := k \<rparr>))
     (map toObject (fst (newIds start as g))) as"
  using only_id_order_newIds [of start as g]
  by (simp add: list_all2_map1) (erule list_all2_mono, auto)


subsection \<open>Import\<close>

lemma ids_of_Cons:
  "ids_of (x # xs) = (case obj_id x of None \<Rightarrow> {} | Some i \<Rightarrow> {i}) \<union> ids_of xs"
  by (cases "obj_id x") (simp_all add: ids_of_def List.map_filter_simps)

lemma ids_of_iff: "i \<in> ids_of objs \<longleftrightarrow> Some i \<in> set (map obj_id objs)"
proof (induction objs)
  case Nil
  show ?case by (simp add: ids_of_def List.map_filter_simps)
next
  case (Cons x xs)
  show ?case
  proof (cases "obj_id x")
    case None
    with Cons show ?thesis by (simp add: ids_of_Cons)
  next
    case (Some j)
    with Cons show ?thesis by (simp add: ids_of_Cons)
  qed
qed

lemma ids_of_generated:
  assumes "map obj_id stored = map (\<lambda>k. Some (g k)) [0..<n]"
  shows "ids_of stored = g ` {..<n}"
proof -
  have "ids_of stored = {i. Some i \<in> set (map obj_id stored)}"
    using ids_of_iff [of _ stored] by blast
  also have "\<dots> = {i. Some i \<in> set (map (\<lambda>k. Some (g k)) [0..<n])}"
    by (simp only: assms)
  also have "\<dots> = g ` {..<n}" by auto
  finally show ?thesis .
qed

lemma distinct_generated:
  "map obj_id stored = map (\<lambda>k. Some (g k)) [0..<n] \<Longrightarrow> inj_on g {..<n} \<Longrightarrow>
   distinct (map obj_id stored)"
  by (auto simp: distinct_map inj_on_def)

lemma fresh_generated:
  assumes "map obj_id stored = map (\<lambda>k. Some (g k)) [0..<n]"
      and "\<forall>k<n. g k \<notin> S"
  shows "ids_of stored \<inter> S = {}"
  using assms(2) by (auto simp: ids_of_generated [OF assms(1)])

lemma dense_append:
  assumes "map order queue = map int [0..<m]" and "m = length queue"
      and "map obj_order stored = map (\<lambda>k. Some (int (m + k))) [0..<n]"
  shows "map obj_order (map toObject queue @ stored) = map (\<lambda>k. Some (int k)) [0..<m + n]"
proof -
  have "map obj_order (map toObject queue) = map (\<lambda>k. Some (int k)) [0..<m]"
    unfolding obj_order_toObject using assms(1) by (intro map_Some_eq) simp
  moreover have "map (\<lambda>k. Some (int (m + k))) [0..<n] = map (\<lambda>k. Some (int k)) [m..<m + n]"
    by (induction n) simp_all
  moreover have "[0..<m + n] = [0..<m] @ [m..<m + n]"
    using upt_add_eq_append [of 0 m n] by simp
  ultimately show ?thesis using assms(3) by simp
qed

text \<open>
  Claim C8, as amended. For every stored queue and every valid payload (the text parses,
  \<open>actions\<close> is an array of objects) on a token whose flag can be written, \<open>importQueue\<close>
  succeeds. In replace mode the stored actions are the payload's actions in payload
  order, each changed in \<open>id\<close> and \<open>order\<close> only: the ids are the identifiers that
  \<open>randomID\<close> returns next, one call for each action, the orders are \<open>0, ..., n - 1\<close>, and
  the stored envelope is the same whatever the flags held before. In append mode the
  existing queue of \<open>m\<close> actions is stored in front as it is, and the imported actions
  follow it with the identifiers \<open>randomID\<close> returns next and the orders
  \<open>m, ..., m + n - 1\<close>, counted from the number of existing actions: when the existing
  orders are \<open>0, ..., m - 1\<close> the orders of the whole queue are \<open>0, ..., m + n - 1\<close>.
  The ids are as fresh as the generator makes them: when the identifiers it returns are
  not among the ids of the payload and of the previous queue, no stored id of an
  imported action is one of those, and when they differ from each other, so do the
  stored ids.
\<close>

theorem importQueue_fresh_ids_dense_order:
  assumes "JSON_parse jsonString = Inr d" and "doc_actions d = Array (map Some objs)"
      and "flagWritable token"
  shows
   "(let n = length objs;
         (imported, g1) = fromObjects objs (rng h);
         (ok, h') = importQueue h token jsonString False
     in ok \<and>
        (\<exists>stored. getFlag h' token =
             Some \<lparr> version = ''1.0.0'', queue_enabled = True, actions = stored \<rparr> \<and>
           map obj_id stored = map (\<lambda>k. Some (g1 k)) [0..<n] \<and>
           map obj_order stored = map (\<lambda>k. Some (int k)) [0..<n] \<and>
           list_all2 (\<lambda>s a. \<exists>i k. s = toObject (a\<lparr> id' := i, order := k \<rparr>)) stored imported \<and>
           ((\<forall>k<n. g1 k \<notin> ids_of objs \<union> previous_ids h token) \<longrightarrow>
              ids_of stored \<inter> (ids_of objs \<union> previous_ids h token) = {}) \<and>
           (inj_on g1 {..<n} \<longrightarrow> distinct (map obj_id stored))) \<and>
        (\<forall>f. getFlag (snd (importQueue (h\<lparr> flags := f \<rparr>) token jsonString False)) token
               = getFlag h' token)) \<and>
    (let n = length objs;
         (imported, g1) = fromObjects objs (rng h);
         (queue, h2) = getQueue (h\<lparr> rng := g1 \<rparr>) token;
         m = length queue;
         (ok, h') = importQueue h token jsonString True
     in ok \<and>
        (\<exists>stored. getFlag h' token =
             Some \<lparr> version = ''1.0.0'', queue_enabled = True,
                    actions = map toObject queue @ stored \<rparr> \<and>
           map obj_id stored = map (\<lambda>k. Some (rng h2 k)) [0..<n] \<and>
           map obj_order stored = map (\<lambda>k. Some (int (m + k))) [0..<n] \<and>
           list_all2 (\<lambda>s a. \<exists>i k. s = toObject (a\<lparr> id' := i, order := k \<rparr>)) stored imported \<and>
           ((\<forall>k<n. rng h2 k \<notin> ids_of objs \<union> set (map id' queue)) \<longrightarrow>
              ids_of stored \<inter> (ids_of objs \<union> set (map id' queue)) = {}) \<and>
           (inj_on (rng h2) {..<n} \<longrightarrow> distinct (map obj_id stored)) \<and>
           (map order queue = map int [0..<m] \<longrightarrow>
              map obj_order (map toObject queue @ stored) = map (\<lambda>k. Some (int k)) [0..<m + n])))"
proof -
  obtain imported g1 where fo: "fromObjects objs (rng h) = (imported, g1)"
    by (cases "fromObjects objs (rng h)")
  have len: "length imported = length objs"
    using length_fromObjects [of objs "rng h"] fo by simp
  have io: "\<And>f. importObjects (map Some objs) (rng (h\<lparr> flags := f \<rparr>)) = (Inr imported, g1)"
    using fo by (simp add: importObjects_Some)
  have io': "importObjects (map Some objs) (rng h) = (Inr imported, g1)"
    using fo by (simp add: importObjects_Some)
  let ?new = "fst (newIds 0 imported g1)"
  have repl: "\<And>f. importQueue (h\<lparr> flags := f \<rparr>) token jsonString False =
      (True, h\<lparr> flags := f(token_id token \<mapsto>
          \<lparr> version = ''1.0.0'', queue_enabled = True, actions = map toObject ?new \<rparr>),
          rng := snd (newIds 0 imported g1) \<rparr>)"
    using assms io by (simp add: importQueue_def split_def Let_def setQueue_def setFlag_def)
  have repl': "importQueue h token jsonString False =
      (True, h\<lparr> flags := (flags h)(token_id token \<mapsto>
          \<lparr> version = ''1.0.0'', queue_enabled = True, actions = map toObject ?new \<rparr>),
          rng := snd (newIds 0 imported g1) \<rparr>)"
    using repl [of "flags h"] by simp
  have ids: "map obj_id (map toObject ?new) = map (\<lambda>k. Some (g1 k)) [0..<length objs]"
    unfolding obj_id_toObject using ids_newIds [of 0 imported g1] len
    by (intro map_Some_eq) simp
  have ords: "map obj_order (map toObject ?new) = map (\<lambda>k. Some (int k)) [0..<length objs]"
    unfolding obj_order_toObject using orders_newIds [of 0 imported g1] len
    by (intro map_Some_eq) simp
  have fresh1: "(\<forall>k<length objs. g1 k \<notin> ids_of objs \<union> previous_ids h token) \<longrightarrow>
      ids_of (map toObject ?new) \<inter> (ids_of objs \<union> previous_ids h token) = {}"
    using fresh_generated [OF ids] by blast
  have dist1: "inj_on g1 {..<length objs} \<longrightarrow> distinct (map obj_id (map toObject ?new))"
    using distinct_generated [OF ids] by blast
  have part1: "(let n = length objs;
         (imported, g1) = fromObjects objs (rng h);
         (ok, h') = importQueue h token jsonString False
     in ok \<and>
        (\<exists>stored. getFlag h' token =
             Some \<lparr> version = ''1.0.0'', queue_enabled = True, actions = stored \<rparr> \<and>
           map obj_id stored = map (\<lambda>k. Some (g1 k)) [0..<n] \<and>
           map obj_order stored = map (\<lambda>k. Some (int k)) [0..<n] \<and>
           list_all2 (\<lambda>s a. \<exists>i k. s = toObject (a\<lparr> id' := i, order := k \<rparr>)) stored imported \<and>
           ((\<forall>k<n. g1 k \<notin> ids_of objs \<union> previous_ids h token) \<longrightarrow>
              ids_of stored \<inter> (ids_of objs \<union> previous_ids h token) = {}) \<and>
           (inj_on g1 {..<n} \<longrightarrow> distinct (map obj_id stored))) \<and>
        (\<forall>f. getFlag (snd (importQueue (h\<lparr> flags := f \<rparr>) token jsonString False)) token
               = getFlag h' token))"
    using ids ords stored_newIds [of 0 imported g1] fresh1 dist1
    by (simp add: fo repl repl' getFlag_def del: map_map)
  obtain queue h2 where gq: "getQueue (h\<lparr> rng := g1 \<rparr>) token = (queue, h2)"
    by (cases "getQueue (h\<lparr> rng := g1 \<rparr>) token")
  let ?app = "fst (newIds (length queue) imported (rng h2))"
  have app: "importQueue h token jsonString True =
      (True, h2\<lparr> flags := (flags h2)(token_id token \<mapsto>
          \<lparr> version = ''1.0.0'', queue_enabled = True,
            actions = map toObject queue @ map toObject ?app \<rparr>),
          rng := snd (newIds (length queue) imported (rng h2)) \<rparr>)"
    using assms io' gq by (simp add: importQueue_def split_def Let_def setQueue_def setFlag_def)
  have ids2: "map obj_id (map toObject ?app) = map (\<lambda>k. Some (rng h2 k)) [0..<length objs]"
    unfolding obj_id_toObject using ids_newIds [of "length queue" imported "rng h2"] len
    by (intro map_Some_eq) simp
  have "map order ?app = map (\<lambda>k. int (length queue + k)) [0..<length objs]"
    using orders_newIds [of "length queue" imported "rng h2"] len
    by (simp add: map_add_upt [symmetric] comp_def add.commute del: map_add_upt)
  then have ords2: "map obj_order (map toObject ?app) =
      map (\<lambda>k. Some (int (length queue + k))) [0..<length objs]"
    unfolding obj_order_toObject by (intro map_Some_eq) simp
  have fresh2: "(\<forall>k<length objs. rng h2 k \<notin> ids_of objs \<union> set (map id' queue)) \<longrightarrow>
      ids_of (map toObject ?app) \<inter> (ids_of objs \<union> set (map id' queue)) = {}"
    using fresh_generated [OF ids2] by blast
  have dist2: "inj_on (rng h2) {..<length objs} \<longrightarrow> distinct (map obj_id (map toObject ?app))"
    using distinct_generated [OF ids2] by blast
  have dense2: "map order queue = map int [0..<length queue] \<longrightarrow>
      map obj_order (map toObject queue @ map toObject ?app) =
        map (\<lambda>k. Some (int k)) [0..<length queue + length objs]"
    using dense_append [OF _ refl ords2] by blast
  have stored2: "getFlag (h2\<lparr> flags := (flags h2)(token_id token \<mapsto>
          \<lparr> version = ''1.0.0'', queue_enabled = True,
            actions = map toObject queue @ map toObject ?app \<rparr>),
          rng := snd (newIds (length queue) imported (rng h2)) \<rparr>) token =
        Some \<lparr> version = ''1.0.0'', queue_enabled = True,
               actions = map toObject queue @ map toObject ?app \<rparr>"
    by (simp add: getFlag_def)
  from stored2 ids2 ords2 stored_newIds [of "length queue" imported "rng h2"] fresh2 dist2 dense2
  have ex2: "\<exists>stored. getFlag (h2\<lparr> flags := (flags h2)(token_id token \<mapsto>
          \<lparr> version = ''1.0.0'', queue_enabled = True,
            actions = map toObject queue @ map toObject ?app \<rparr>),
          rng := snd (newIds (length queue) imported (rng h2)) \<rparr>) token =
             Some \<lparr> version = ''1.0.0'', queue_enabled = True,
                    actions = map toObject queue @ stored \<rparr> \<and>
           map obj_id stored = map (\<lambda>k. Some (rng h2 k)) [0..<length objs] \<and>
           map obj_order stored = map (\<lambda>k. Some (int (length queue + k))) [0..<length objs] \<and>
           list_all2 (\<lambda>s a. \<exists>i k. s = toObject (a\<lparr> id' := i, order := k \<rparr>)) stored imported \<and>
           ((\<forall>k<length objs. rng h2 k \<notin> ids_of objs \<union> set (map id' queue)) \<longrightarrow>
              ids_of stored \<inter> (ids_of objs \<union> set (map id' queue)) = {}) \<and>
           (inj_on (rng h2) {..<length objs} \<longrightarrow> distinct (map obj_id stored)) \<and>
           (map order queue = map int [0..<length queue] \<longrightarrow>
              map obj_order (map toObject queue @ stored) =
                map (\<lambda>k. Some (int k)) [0..<length queue + length objs])"
    by (intro exI [of _ "map toObject ?app"] conjI)
  have part2: "(let n = length objs;
         (imported, g1) = fromObjects objs (rng h);
         (queue, h2) = getQueue (h\<lparr> rng := g1 \<rparr>) token;
         m = length queue;
         (ok, h') = importQueue h token jsonString True
     in ok \<and>
        (\<exists>stored. getFlag h' token =
             Some \<lparr> version = ''1.0.0'', queue_enabled = True,
                    actions = map toObject queue @ stored \<rparr> \<and>
           map obj_id stored = map (\<lambda>k. Some (rng h2 k)) [0..<n] \<and>
           map obj_order stored = map (\<lambda>k. Some (int (m + k))) [0..<n] \<and>
           list_all2 (\<lambda>s a. \<exists>i k. s = toObject (a\<lparr> id' := i, order := k \<rparr>)) stored imported \<and>
           ((\<forall>k<n. rng h2 k \<notin> ids_of objs \<union> set (map id' queue)) \<longrightarrow>
              ids_of stored \<inter> (ids_of objs \<union> set (map id' queue)) = {}) \<and>
           (inj_on (rng h2) {..<n} \<longrightarrow> distinct (map obj_id stored)) \<and>
           (map order queue = map int [0..<m] \<longrightarrow>
              map obj_order (map toObject queue @ stored) = map (\<lambda>k. Some (int k)) [0..<m + n])))"
    unfolding Let_def fo gq app prod.case
    by (intro conjI TrueI) (rule ex2)
  show ?thesis using part1 part2 by blast
qed

theorem importQueue_fresh_ids_dense_order_witness:
  "JSON_parse (Json demo_document) = Inr demo_document \<and>
   doc_actions demo_document = Array (map Some demo_payload) \<and>
   flagWritable demo_token \<and>
   fst (importQueue disabled_host demo_token (Json demo_document) False) \<and>
   fst (importQueue disabled_host demo_token (Json demo_document) True) \<and>
   snd (fromObjects demo_payload (rng disabled_host)) 0 \<notin> ids_of demo_payload \<union> previous_ids disabled_host demo_token \<and>
   snd (fromObjects demo_payload (rng disabled_host)) 1 \<notin> ids_of demo_payload \<union> previous_ids disabled_host demo_token \<and>
   snd (fromObjects demo_payload (rng disabled_host)) 0 \<noteq> snd (fromObjects demo_payload (rng disabled_host)) 1 \<and>
   (\<exists>stored. getFlag (snd (importQueue disabled_host demo_token (Json demo_document) False)) demo_token =
        Some \<lparr> version = ''1.0.0'', queue_enabled = True, actions = stored \<rparr> \<and>
      ids_of stored \<inter> (ids_of demo_payload \<union> previous_ids disabled_host demo_token) = {} \<and>
      distinct (map obj_id stored)) \<and>
   map order (fst (getQueue (disabled_host\<lparr> rng := snd (fromObjects demo_payload (rng disabled_host)) \<rparr>)
                     demo_token)) = [0] \<and>
   map_option (\<lambda>qd. map obj_order (actions qd))
     (getFlag (snd (importQueue disabled_host demo_token (Json demo_document) True)) demo_token) =
     Some [Some 0, Some 1, Some 2]"
proof -
  let ?g = "snd (fromObjects demo_payload (rng disabled_host))"
  let ?S = "ids_of demo_payload \<union> previous_ids disabled_host demo_token"
  let ?q = "fst (getQueue (disabled_host\<lparr> rng := ?g \<rparr>) demo_token)"
  have h1: "JSON_parse (Json demo_document) = Inr demo_document" by (simp add: JSON_parse_def)
  have h2: "doc_actions demo_document = Array (map Some demo_payload)"
    by (simp add: demo_document_def)
  have h3: "flagWritable demo_token" by (simp add: demo_token_def)
  have n: "length demo_payload = 2" by (simp add: demo_payload_def)
  have f0: "?g 0 \<notin> ?S" by code_simp
  have f1: "?g 1 \<notin> ?S" by code_simp
  have d: "?g 0 \<noteq> ?g 1" by code_simp
  have lt2: "\<And>k::nat. k < 2 \<longleftrightarrow> k = 0 \<or> k = 1" by auto
  have fresh: "\<forall>k<length demo_payload. ?g k \<notin> ?S" using f0 f1 by (auto simp: n lt2)
  have inj: "inj_on ?g {..<length demo_payload}" using d by (auto simp: n inj_on_def lt2)
  have o: "map order ?q = [0]" by code_simp
  have m: "length ?q = 1" by code_simp
  have dense: "map order ?q = map int [0..<length ?q]" by (simp add: o m)
  have upt3: "[0..<length ?q + length demo_payload] = [0, 1, 2]"
    by (simp add: m n upt_rec)
  note t = importQueue_fresh_ids_dense_order [OF h1 h2 h3, of disabled_host, unfolded Let_def split_def]
  from t have ok: "fst (importQueue disabled_host demo_token (Json demo_document) False)"
      "fst (importQueue disabled_host demo_token (Json demo_document) True)"
    by blast+
  from t fresh inj
  have r: "\<exists>stored. getFlag (snd (importQueue disabled_host demo_token (Json demo_document) False)) demo_token =
        Some \<lparr> version = ''1.0.0'', queue_enabled = True, actions = stored \<rparr> \<and>
      ids_of stored \<inter> ?S = {} \<and> distinct (map obj_id stored)"
    by blast
  from t dense
  have "\<exists>stored. getFlag (snd (importQueue disabled_host demo_token (Json demo_document) True)) demo_token =
        Some \<lparr> version = ''1.0.0'', queue_enabled = True, actions = map toObject ?q @ stored \<rparr> \<and>
      map obj_order (map toObject ?q @ stored) =
        map (\<lambda>k. Some (int k)) [0..<length ?q + length demo_payload]"
    by blast
  then have a: "map_option (\<lambda>qd. map obj_order (actions qd))
     (getFlag (snd (importQueue disabled_host demo_token (Json demo_document) True)) demo_token) =
     Some [Some 0, Some 1, Some 2]"
    by (auto simp: upt3)
  from h1 h2 h3 ok f0 f1 d r o a show ?thesis by blast
qed

text \<open>
  The claim as stated fails in append mode on a queue whose orders are not
  \<open>0, ..., m - 1\<close>: the queue holds \<open>x\<close> with order 7, the two imported actions get the
  orders 1 and 2, and sorted by order they come before \<open>x\<close>.
\<close>

theorem import_append_orders_collide:
  "JSON_parse (Json demo_document) = Inr demo_document \<and>
   doc_actions demo_document = Array (map Some demo_payload) \<and>
   flagWritable demo_token \<and>
   map order (fst (getQueue crowded_host demo_token)) = [7] \<and>
   map_option (\<lambda>qd. map obj_order (actions qd))
     (getFlag (snd (importQueue crowded_host demo_token (Json demo_document) True)) demo_token) =
     Some [Some 7, Some 1, Some 2] \<and>
   map id' (fst (getSortedActions
                  (snd (importQueue crowded_host demo_token (Json demo_document) True)) demo_token)) =
     [''r1'', ''r2'', ''x'']"
  by code_simp

subsection \<open>Export and import again\<close>

lemma or_null_not_empty: "or_null v \<noteq> Some []"
  by (cases v) (simp_all add: or_null_def truthy_def)

lemma or_else_not_empty: "d \<noteq> [] \<Longrightarrow> or_else v d \<noteq> []"
  by (cases v) (simp_all add: or_else_def)

lemma fromObject_normalised: "normalised (fst (fromObject d g))"
  by (simp add: fromObject_def new_ActionQueueItem_def normalised_def split_def Let_def
        or_null_not_empty or_else_not_empty MOVEMENT_def)

lemma fromObjects_normalised: "list_all normalised (fst (fromObjects ds g))"
  by (induction ds arbitrary: g) (simp_all add: split_def Let_def fromObject_normalised)

lemma fromObject_toObject:
  "normalised a \<Longrightarrow> same_content (fst (fromObject (toObject a) g)) a"
  by (cases "onSuccess a"; cases "onFailure a")
     (simp_all add: fromObject_def new_ActionQueueItem_def toObject_def normalised_def
        same_content_def split_def Let_def or_else_def or_null_def truthy_def)

lemma fromObjects_toObject:
  "list_all normalised xs \<Longrightarrow> list_all2 same_content (fst (fromObjects (map toObject xs) g)) xs"
  by (induction xs arbitrary: g) (simp_all add: split_def Let_def fromObject_toObject)

lemma same_content_trans: "same_content a b \<Longrightarrow> same_content b c \<Longrightarrow> same_content a c"
  by (simp add: same_content_def)

lemma same_content_sym: "same_content a b \<Longrightarrow> same_content b a"
  by (simp add: same_content_def)

lemma same_content_normalised: "same_content a b \<Longrightarrow> normalised b \<Longrightarrow> normalised a"
  by (simp add: same_content_def normalised_def)

lemma all2_same_content_trans:
  "list_all2 same_content xs ys \<Longrightarrow> list_all2 same_content ys zs \<Longrightarrow> list_all2 same_content xs zs"
  by (rule list_all2_trans [of same_content same_content same_content]) (auto intro: same_content_trans)

lemma all2_same_content_normalised:
  "list_all2 same_content xs ys \<Longrightarrow> list_all normalised ys \<Longrightarrow> list_all normalised xs"
  by (induction rule: list_all2_induct) (auto intro: same_content_normalised)

lemma fromObject_content_indep:
  "same_content (fst (fromObject d g)) (fst (fromObject d g'))"
  by (simp add: fromObject_def new_ActionQueueItem_def same_content_def split_def Let_def)

lemma fromObjects_content_indep:
  "list_all2 same_content (fst (fromObjects ds g)) (fst (fromObjects ds g'))"
  by (induction ds arbitrary: g g') (simp_all add: split_def Let_def fromObject_content_indep)

lemma map_Some_toObject: "map (\<lambda>a. Some (toObject a)) xs = map Some (map toObject xs)"
  by simp


text \<open>
  Claim C9. Exporting the queue of a token and importing the exported text in replace
  mode, into any host and for any token, succeeds exactly when the flag of that token
  can be written. Then the queue read from that token afterwards has as many actions as
  the exported queue, each with the type, conditions, data, name, description, enabled
  flag and branch targets of the exported action at the same place, whatever that token
  held before; ids and orders are left open. When the flag cannot be written the flags
  of the host stay as they are.
\<close>

theorem export_import_round_trip:
  "(let (json, h1) = exportQueue h token;
        (ok, h2) = importQueue h' token' json False
    in ok = flagWritable token' \<and>
       (flagWritable token' \<longrightarrow>
          list_all2 same_content (fst (getQueue h2 token')) (fst (getQueue h token))) \<and>
       (\<not> flagWritable token' \<longrightarrow> flags h2 = flags h'))"
proof -
  obtain q h1 where gq: "getQueue h token = (q, h1)" by (cases "getQueue h token")
  have nq: "list_all normalised q"
    using gq fromObjects_normalised
    by (auto simp: getQueue_def split_def Let_def split: option.splits)
  define json where "json = JSON_stringify \<lparr> doc_version = Some ''1.0.0'',
        doc_tokenName = Some (token_name token),
        doc_actions = Array (map (\<lambda>a. Some (toObject a)) q) \<rparr>"
  have ex: "exportQueue h token = (json, h1)"
    using gq by (simp add: exportQueue_def json_def)
  obtain imported g1 where fo: "fromObjects (map toObject q) (rng h') = (imported, g1)"
    by (cases "fromObjects (map toObject q) (rng h')")
  have imp_q: "list_all2 same_content imported q"
    using fromObjects_toObject [OF nq, of "rng h'"] fo by simp
  have io: "importObjects (map (\<lambda>a. Some (toObject a)) q) (rng h') = (Inr imported, g1)"
    using fo by (simp only: map_Some_toObject importObjects_Some) simp
  obtain new g3 where ni: "newIds 0 imported g1 = (new, g3)" by (cases "newIds 0 imported g1")
  have new_imp: "list_all2 same_content new imported"
    using content_newIds [of 0 imported g1] ni by simp
  have new_q: "list_all2 same_content new q"
    using new_imp imp_q by (rule all2_same_content_trans)
  have imp: "importQueue h' token' json False = setQueue (h'\<lparr> rng := g3 \<rparr>) token' new"
    using io ni by (simp add: importQueue_def json_def JSON_stringify_def JSON_parse_def)
  show ?thesis
  proof (cases "flagWritable token'")
    case True
    define h2 where "h2 = snd (setQueue (h'\<lparr> rng := g3 \<rparr>) token' new)"
    have ok: "setQueue (h'\<lparr> rng := g3 \<rparr>) token' new = (True, h2)"
      using True by (simp add: h2_def setQueue_def setFlag_def)
    have "fst (getQueue h2 token') = fst (fromObjects (map toObject new) g3)"
      using True by (simp add: h2_def setQueue_def setFlag_def getQueue_def getFlag_def split_def Let_def)
    moreover have "list_all2 same_content (fst (fromObjects (map toObject new) g3)) new"
      using new_q nq by (intro fromObjects_toObject) (rule all2_same_content_normalised)
    ultimately have "list_all2 same_content (fst (getQueue h2 token')) q"
      using new_q by (auto intro: all2_same_content_trans)
    then show ?thesis using True gq by (simp add: ex imp ok)
  next
    case False
    have ok: "setQueue (h'\<lparr> rng := g3 \<rparr>) token' new = (False, h'\<lparr> rng := g3 \<rparr>)"
      using False by (simp add: setQueue_def setFlag_def)
    show ?thesis using False by (simp add: ex imp ok)
  qed
qed

theorem export_import_round_trip_witness:
  "flagWritable other_token \<and> \<not> flagWritable locked_token \<and>
   map id' (fst (getQueue crowded_host other_token)) = [] \<and>
   fst (importQueue crowded_host other_token
          (fst (exportQueue (demo_host [attack_then_b, disabled_b]) demo_token)) False) \<and>
   list_all2 same_content
     (fst (getQueue (snd (importQueue crowded_host other_token
          (fst (exportQueue (demo_host [attack_then_b, disabled_b]) demo_token)) False)) other_token))
     [attack_then_b, disabled_b] \<and>
   list_all2 same_content
     (fst (getQueue (snd (importQueue crowded_host demo_token
          (fst (exportQueue (demo_host [attack_then_b, disabled_b]) demo_token)) False)) demo_token))
     [attack_then_b, disabled_b] \<and>
   flags (snd (importQueue crowded_host locked_token
          (fst (exportQueue (demo_host [attack_then_b, disabled_b]) demo_token)) False)) = flags crowded_host"
proof -
  let ?h = "demo_host [attack_then_b, disabled_b]"
  have w: "flagWritable other_token" "flagWritable demo_token" "\<not> flagWritable locked_token"
    by code_simp+
  have e: "map id' (fst (getQueue crowded_host other_token)) = []" by code_simp
  have q: "fst (getQueue ?h demo_token) = [attack_then_b, disabled_b]" by code_simp
  note t1 = export_import_round_trip [of ?h demo_token crowded_host other_token, unfolded Let_def split_def]
  note t2 = export_import_round_trip [of ?h demo_token crowded_host demo_token, unfolded Let_def split_def]
  note t3 = export_import_round_trip [of ?h demo_token crowded_host locked_token, unfolded Let_def split_def]
  from t1 t2 t3 w e show ?thesis by (simp add: q)
qed

subsection \<open>Mutations enable the queue\<close>

lemma setQueue_enables:
  "fst (setQueue h token as) \<Longrightarrow> isQueueEnabled (snd (setQueue h token as)) token"
  by (cases "flagWritable token") (simp_all add: setQueue_def setFlag_def isQueueEnabled_def getFlag_def)

text \<open>
  Claim C10. Each of \<open>addAction\<close>, \<open>removeAction\<close>, \<open>updateAction\<close>, \<open>reorderActions\<close>,
  \<open>duplicateAction\<close>, \<open>clearQueue\<close> and \<open>importQueue\<close> that returns \<open>true\<close> (it has gone
  through \<open>setQueue\<close>) leaves the queue of the token enabled, whatever \<open>setQueueEnabled\<close>
  had stored before.
\<close>

theorem setQueue_mutations_enable_queue:
  "(fst (addAction h token action) \<longrightarrow> isQueueEnabled (snd (addAction h token action)) token) \<and>
   (fst (removeAction h token actionId) \<longrightarrow> isQueueEnabled (snd (removeAction h token actionId)) token) \<and>
   (fst (updateAction h token actionId updates) \<longrightarrow>
      isQueueEnabled (snd (updateAction h token actionId updates)) token) \<and>
   (fst (reorderActions h token actionIds) \<longrightarrow>
      isQueueEnabled (snd (reorderActions h token actionIds)) token) \<and>
   (fst (duplicateAction h token actionId) \<longrightarrow>
      isQueueEnabled (snd (duplicateAction h token actionId)) token) \<and>
   (fst (clearQueue h token) \<longrightarrow> isQueueEnabled (snd (clearQueue h token)) token) \<and>
   (fst (importQueue h token jsonString app) \<longrightarrow>
      isQueueEnabled (snd (importQueue h token jsonString app)) token)"
proof (intro conjI impI)
  show "isQueueEnabled (snd (addAction h token action)) token" if "fst (addAction h token action)"
    using that by (auto simp: addAction_def Let_def split: prod.splits intro: setQueue_enables)
  show "isQueueEnabled (snd (removeAction h token actionId)) token"
    if "fst (removeAction h token actionId)"
    using that by (auto simp: removeAction_def Let_def split: prod.splits intro: setQueue_enables)
  show "isQueueEnabled (snd (updateAction h token actionId updates)) token"
    if "fst (updateAction h token actionId updates)"
    using that
    by (auto simp: updateAction_def Let_def split: prod.splits option.splits intro: setQueue_enables)
  show "isQueueEnabled (snd (reorderActions h token actionIds)) token"
    if "fst (reorderActions h token actionIds)"
    using that by (auto simp: reorderActions_def Let_def split: prod.splits intro: setQueue_enables)
  show "isQueueEnabled (snd (duplicateAction h token actionId)) token"
    if "fst (duplicateAction h token actionId)"
    using that
    by (auto simp: duplicateAction_def Let_def split: prod.splits option.splits intro: setQueue_enables)
  show "isQueueEnabled (snd (clearQueue h token)) token" if "fst (clearQueue h token)"
    using that by (auto simp: clearQueue_def intro: setQueue_enables)
  show "isQueueEnabled (snd (importQueue h token jsonString app)) token"
    if "fst (importQueue h token jsonString app)"
    using that
    by (auto simp: importQueue_def Let_def
          split: prod.splits sum.splits ActionsField.splits if_splits intro: setQueue_enables)
qed

theorem setQueue_mutations_enable_queue_witness:
  "\<not> isQueueEnabled disabled_host demo_token \<and>
   fst (addAction disabled_host demo_token (demo_action ''b'' 0 True always ''hit'' None None)) \<and>
   isQueueEnabled
     (snd (addAction disabled_host demo_token (demo_action ''b'' 0 True always ''hit'' None None)))
     demo_token \<and>
   fst (removeAction disabled_host demo_token ''a'') \<and>
   isQueueEnabled (snd (removeAction disabled_host demo_token ''a'')) demo_token \<and>
   fst (updateAction disabled_host demo_token ''a'' demo_updates) \<and>
   isQueueEnabled
     (snd (updateAction disabled_host demo_token ''a'' demo_updates))
     demo_token \<and>
   fst (reorderActions disabled_host demo_token [''a'', ''zz'', ''a'']) \<and>
   isQueueEnabled (snd (reorderActions disabled_host demo_token [''a'', ''zz'', ''a''])) demo_token \<and>
   fst (duplicateAction disabled_host demo_token ''a'') \<and>
   isQueueEnabled (snd (duplicateAction disabled_host demo_token ''a'')) demo_token \<and>
   fst (clearQueue disabled_host demo_token) \<and>
   isQueueEnabled (snd (clearQueue disabled_host demo_token)) demo_token \<and>
   fst (importQueue disabled_host demo_token (Json demo_document) True) \<and>
   isQueueEnabled (snd (importQueue disabled_host demo_token (Json demo_document) True)) demo_token"
proof -
  have off: "\<not> isQueueEnabled disabled_host demo_token" by code_simp
  have t1: "fst (addAction disabled_host demo_token (demo_action ''b'' 0 True always ''hit'' None None))"
    by code_simp
  have t2: "fst (removeAction disabled_host demo_token ''a'')" by code_simp
  have t3: "fst (updateAction disabled_host demo_token ''a''
                  demo_updates)"
    by code_simp
  have t4: "fst (reorderActions disabled_host demo_token [''a'', ''zz'', ''a''])" by code_simp
  have t5: "fst (duplicateAction disabled_host demo_token ''a'')" by code_simp
  have t6: "fst (clearQueue disabled_host demo_token)" by code_simp
  have t7: "fst (importQueue disabled_host demo_token (Json demo_document) True)" by code_simp
  from setQueue_mutations_enable_queue
    [of disabled_host demo_token "demo_action ''b'' 0 True always ''hit'' None None" "''a''"
        demo_updates "[''a'', ''zz'', ''a'']"
        "Json demo_document" True]
    off t1 t2 t3 t4 t5 t6 t7
  show ?thesis by blast
qed

section \<open>Properties of the executor\<close>

subsection \<open>What a dispatch and a branch leave alone\<close>

lemma stored_actions_append: "stored_actions (xs @ ys) = stored_actions xs @ stored_actions ys"
  by (induction xs rule: stored_actions.induct) simp_all

lemma dispatch_frame:
  "currentWorkflow (snd (dispatch g a s)) = currentWorkflow s \<and>
   executing (snd (dispatch g a s)) = executing s \<and>
   events (snd (dispatch g a s)) = events s"
  by (simp add: dispatch_def executeMovement_def executeAttack_def executeSpell_def
        executeItem_def split_def Let_def split: option.splits sum.splits)

lemma executeAction_cases:
  obtains r s1 where "dispatch g a (emit (Log_Executing a) s) = (Inr r, s1)"
      and "executeAction g a s = (r, s1)"
      and "currentWorkflow s1 = currentWorkflow s" and "executing s1 = executing s"
      and "events s1 = events s @ [Log_Executing a]"
  | e s1 where "dispatch g a (emit (Log_Executing a) s) = (Inl e, s1)"
      and "executeAction g a s = (failure (message e), emit (Console_Error e) s1)"
      and "currentWorkflow s1 = currentWorkflow s" and "executing s1 = executing s"
      and "events s1 = events s @ [Log_Executing a]"
proof -
  obtain x s1 where d: "dispatch g a (emit (Log_Executing a) s) = (x, s1)"
    by (cases "dispatch g a (emit (Log_Executing a) s)")
  have f: "currentWorkflow s1 = currentWorkflow s" "executing s1 = executing s"
      "events s1 = events s @ [Log_Executing a]"
    using dispatch_frame [of g a "emit (Log_Executing a) s"] d by (simp_all add: emit_def)
  show thesis
  proof (cases x)
    case (Inl e)
    with d f that(2) [of e s1] show thesis by (simp add: executeAction_def)
  next
    case (Inr r)
    with d f that(1) [of r s1] show thesis by (simp add: executeAction_def)
  qed
qed

lemma executeAction_frame:
  "currentWorkflow (snd (executeAction g a s)) = currentWorkflow s \<and>
   executing (snd (executeAction g a s)) = executing s"
  by (rule executeAction_cases [of g a s]) (simp_all add: emit_def)

lemma executeAction_events:
  "events (snd (executeAction g a s)) =
     events s @ Log_Executing a #
       (case fst (dispatch g a (emit (Log_Executing a) s)) of Inl e \<Rightarrow> [Console_Error e] | Inr r \<Rightarrow> [])"
  by (rule executeAction_cases [of g a s]) (simp_all add: emit_def)

lemma executeAction_stored:
  "stored_actions (events (snd (executeAction g a s))) = stored_actions (events s)"
  by (simp add: executeAction_events stored_actions_append split: sum.splits)

lemma executeAction_success_events:
  "success (fst (executeAction g a s)) \<Longrightarrow>
     events (snd (executeAction g a s)) = events s @ [Log_Executing a]"
  by (rule executeAction_cases [of g a s]) (simp_all add: emit_def failure_def)

lemma branch_frame:
  "currentWorkflow (branch g as t s) = currentWorkflow s \<and>
   executing (branch g as t s) = executing s \<and>
   stored_actions (events (branch g as t s)) = stored_actions (events s)"
  by (simp add: branch_def executeAction_frame executeAction_stored split: option.splits)

lemma branch_events: "\<exists>tail. events (branch g as t s) = events s @ tail"
  by (simp add: branch_def executeAction_events split: option.splits)

lemma record_result_events: "events (record_result a r flow s) = events s @ [Result_Stored a r]"
  by (simp add: record_result_def emit_def)

lemma record_result_workflow:
  "currentWorkflow (record_result a r flow s) =
     Some (flow\<lparr> results := map_set (id' a) r (results flow) \<rparr>)"
  by (simp add: record_result_def emit_def)

lemma executeLoop_events: "\<exists>tail. events (snd (executeLoop g as rest s)) = events s @ tail"
proof (induction rest arbitrary: s)
  case Nil
  show ?case by simp
next
  case (Cons a rest)
  show ?case
  proof (cases "shouldExecute a s")
    case (Inl e)
    then show ?thesis by simp
  next
    case (Inr b)
    show ?thesis
    proof (cases b)
      case False
      with Inr Cons.IH [of "emit (Log_Skipping a) s"] show ?thesis
        by (auto simp: emit_def)
    next
      case True
      obtain r s1 where ea: "executeAction g a s = (r, s1)" by (cases "executeAction g a s")
      have e1: "\<exists>t1. events s1 = events s @ t1"
        using executeAction_events [of g a s] ea by simp
      show ?thesis
      proof (cases "currentWorkflow s1")
        case None
        with Inr True ea e1 show ?thesis by simp
      next
        case (Some flow)
        define s2 where "s2 = record_result a r flow s1"
        define s3 where "s3 = (if success r \<and> truthy (onSuccess a) then branch g as (onSuccess a) s2
                            else if \<not> success r \<and> truthy (onFailure a) then branch g as (onFailure a) s2
                            else s2)"
        have step: "executeLoop g as (a # rest) s = executeLoop g as rest s3"
          using Inr True ea Some by (simp add: s2_def s3_def Let_def)
        have e2: "\<exists>t2. events s2 = events s @ t2"
          using e1 by (auto simp: s2_def emit_def record_result_def)
        have e3: "\<exists>t3. events s3 = events s2 @ t3"
          using branch_events [of g as _ s2] by (auto simp: s3_def)
        from e2 e3 Cons.IH [of s3] step show ?thesis by auto
      qed
    qed
  qed
qed

lemma executeLoop_step:
  assumes "shouldExecute a s = Inr True" and "executeAction g a s = (r, s1)"
      and "currentWorkflow s = Some flow"
  shows "currentWorkflow s1 = Some flow"
    and "executeLoop g as (a # rest) s =
      executeLoop g as rest
        (let s2 = record_result a r flow s1
         in if success r \<and> truthy (onSuccess a) then branch g as (onSuccess a) s2
            else if \<not> success r \<and> truthy (onFailure a) then branch g as (onFailure a) s2
            else s2)"
proof -
  show w: "currentWorkflow s1 = Some flow"
    using executeAction_frame [of g a s] assms by simp
  show "executeLoop g as (a # rest) s =
      executeLoop g as rest
        (let s2 = record_result a r flow s1
         in if success r \<and> truthy (onSuccess a) then branch g as (onSuccess a) s2
            else if \<not> success r \<and> truthy (onFailure a) then branch g as (onFailure a) s2
            else s2)"
    using assms w by (simp add: Let_def)
qed

lemma branch_found:
  "find (\<lambda>a. id' a = t) as = Some B \<Longrightarrow> branch g as (Some t) s = snd (executeAction g B s)"
  by (simp add: branch_def)

lemma branch_step:
  assumes "currentWorkflow s = Some flow" and "shouldExecute A s = Inr True"
      and "executeAction g A s = (r, s1)"
      and "(success r \<and> onSuccess A = Some t) \<or> (\<not> success r \<and> onFailure A = Some t)"
      and "t \<noteq> []" and "find (\<lambda>a. id' a = t) as = Some B"
  shows "executeLoop g as (A # rest) s =
           executeLoop g as rest (snd (executeAction g B (record_result A r flow s1)))"
  using executeLoop_step(2) [OF assms(2,3,1), of as rest] assms(4,5,6)
  by (auto simp: Let_def truthy_def branch_found)

subsection \<open>Order of the main loop\<close>

lemma executeLoop_stored:
  "\<exists>xs. stored_actions (events (snd (executeLoop g as rest s))) = stored_actions (events s) @ xs \<and>
        subseq xs rest"
proof (induction rest arbitrary: s)
  case Nil
  show ?case by simp
next
  case (Cons a rest)
  show ?case
  proof (cases "shouldExecute a s")
    case (Inl e)
    then show ?thesis by simp
  next
    case (Inr b)
    show ?thesis
    proof (cases b)
      case False
      obtain xs where "stored_actions (events (snd (executeLoop g as rest (emit (Log_Skipping a) s))))
            = stored_actions (events (emit (Log_Skipping a) s)) @ xs" and "subseq xs rest"
        using Cons.IH [of "emit (Log_Skipping a) s"] by blast
      with Inr False show ?thesis
        by (auto simp: emit_def stored_actions_append)
    next
      case True
      obtain r s1 where ea: "executeAction g a s = (r, s1)" by (cases "executeAction g a s")
      have st1: "stored_actions (events s1) = stored_actions (events s)"
        using executeAction_stored [of g a s] ea by simp
      show ?thesis
      proof (cases "currentWorkflow s")
        case None
        then have "currentWorkflow s1 = None"
          using executeAction_frame [of g a s] ea by simp
        with Inr True ea st1 show ?thesis by simp
      next
        case (Some flow)
        define s2 where "s2 = record_result a r flow s1"
        define s3 where "s3 = (if success r \<and> truthy (onSuccess a) then branch g as (onSuccess a) s2
                            else if \<not> success r \<and> truthy (onFailure a) then branch g as (onFailure a) s2
                            else s2)"
        have step: "executeLoop g as (a # rest) s = executeLoop g as rest s3"
          using executeLoop_step(2) [OF _ ea Some, of as rest] Inr True
          by (simp add: s2_def s3_def Let_def)
        have st2: "stored_actions (events s2) = stored_actions (events s) @ [a]"
          using st1 by (simp add: s2_def emit_def record_result_def stored_actions_append)
        have st3: "stored_actions (events s3) = stored_actions (events s) @ [a]"
          using st2 branch_frame [of g as _ s2] by (simp add: s3_def)
        obtain xs where "stored_actions (events (snd (executeLoop g as rest s3)))
            = stored_actions (events s3) @ xs" and "subseq xs rest"
          using Cons.IH [of s3] by blast
        with st3 step show ?thesis by auto
      qed
    qed
  qed
qed

lemma subseq_sorted_map:
  assumes "subseq xs ys" and "sorted (map f ys)"
  shows "sorted (map f xs)"
proof -
  have "subseq (map f xs) (map f ys)" using assms(1) by (rule subseq_map)
  then obtain N where "map f xs = nths (map f ys) N" by (auto simp: subseq_conv_nths)
  with assms(2) show ?thesis by (simp add: sorted_nths)
qed

lemma executeQueue_stored:
  "\<exists>xs. stored_actions (events (executeQueue g token as s)) = stored_actions (events s) @ xs \<and>
        subseq xs as"
proof (cases "executing s")
  case True
  then show ?thesis by (simp add: executeQueue_def emit_def stored_actions_append)
next
  case False
  define s0 where "s0 = s\<lparr> executing := True,
                    currentWorkflow :=
                      Some \<lparr> wf_token = token, wf_actions = as, results = [],
                             wf_context = \<lparr> ctx_actor = actor token, ctx_token = token \<rparr> \<rparr> \<rparr>"
  obtain err s1 where l: "executeLoop g as as s0 = (err, s1)" by (cases "executeLoop g as as s0")
  obtain xs where "stored_actions (events s1) = stored_actions (events s0) @ xs" and "subseq xs as"
    using executeLoop_stored [of g as as s0] l by auto
  moreover have "stored_actions (events (executeQueue g token as s)) = stored_actions (events s1)"
    using False l by (cases err) (simp_all add: executeQueue_def s0_def [symmetric] emit_def stored_actions_append)
  ultimately show ?thesis by (auto simp: s0_def)
qed

lemma getEnabledActions_eq:
  "fst (getEnabledActions h token) = filter enabled (sort_key order (fst (getQueue h token)))"
  by (simp add: getEnabledActions_def getSortedActions_def split_def Let_def)

lemma onCombatTurn_stored:
  "\<exists>xs. stored_actions (events (snd (onCombatTurn g combat updateData (h, s))))
          = stored_actions (events s) @ xs \<and>
        (xs = [] \<or> (\<exists>token. combatant combat = Some \<lparr> token_object = Some token \<rparr> \<and>
                      subseq xs (fst (getEnabledActions h token))))"
proof -
  have triv: "\<exists>xs. stored_actions (events s) = stored_actions (events s) @ xs \<and>
        (xs = [] \<or> (\<exists>token. combatant combat = Some \<lparr> token_object = Some token \<rparr> \<and>
                      subseq xs (fst (getEnabledActions h token))))"
    by simp
  show ?thesis
  proof (cases "combatant combat")
    case None
    with triv show ?thesis by (simp add: onCombatTurn_def)
  next
    case (Some c)
    show ?thesis
    proof (cases "token_object c")
      case None
      with Some triv show ?thesis by (simp add: onCombatTurn_def)
    next
      case tok: (Some token)
      have c: "c = \<lparr> token_object = Some token \<rparr>" using tok by (cases c) simp
      obtain as h1 where ge: "getEnabledActions h token = (as, h1)"
        by (cases "getEnabledActions h token")
      obtain xs where x: "stored_actions (events (executeQueue g token as
                (emit (Log_Turn (length as) (token_name token)) s)))
            = stored_actions (events (emit (Log_Turn (length as) (token_name token)) s)) @ xs"
          "subseq xs as"
        using executeQueue_stored by blast
      have x': "stored_actions (events (executeQueue g token as
                (emit (Log_Turn (length as) (token_name token)) s)))
            = stored_actions (events s) @ xs"
        using x(1) by (simp add: emit_def stored_actions_append)
      show ?thesis
        using Some tok c ge x' x(2) triv
        by (auto simp add: onCombatTurn_def)
    qed
  qed
qed

text \<open>
  Claim C3. In a turn started by \<open>onCombatTurn\<close>, the actions for which the main loop
  writes a result into the ledger come in non-decreasing \<open>order\<close> and are all enabled
  (they are a subsequence of the enabled actions sorted by \<open>order\<close>); a branch writes
  none. An action whose condition evaluates to false is skipped: the loop goes on with
  the next action, the ledger as it was.
\<close>

theorem main_loop_ordered_enabled:
  "(\<exists>xs. stored_actions (events (snd (onCombatTurn g combat updateData (h, s))))
            = stored_actions (events s) @ xs \<and>
          sorted (map order xs) \<and> (\<forall>a\<in>set xs. enabled a)) \<and>
   (shouldExecute a st = Inr False \<longrightarrow>
      executeLoop g as (a # rest) st = executeLoop g as rest (emit (Log_Skipping a) st) \<and>
      currentWorkflow (emit (Log_Skipping a) st) = currentWorkflow st \<and>
      stored_actions (events (emit (Log_Skipping a) st)) = stored_actions (events st))"
proof -
  obtain xs where x: "stored_actions (events (snd (onCombatTurn g combat updateData (h, s))))
          = stored_actions (events s) @ xs"
     "xs = [] \<or> (\<exists>token. combatant combat = Some \<lparr> token_object = Some token \<rparr> \<and>
                      subseq xs (fst (getEnabledActions h token)))"
    using onCombatTurn_stored by blast
  have "sorted (map order xs) \<and> (\<forall>a\<in>set xs. enabled a)"
  proof (cases "xs = []")
    case True
    then show ?thesis by simp
  next
    case False
    with x(2) obtain token where sub: "subseq xs (fst (getEnabledActions h token))" by blast
    have srt: "sorted (map order (fst (getEnabledActions h token)))"
      by (simp add: getEnabledActions_eq sorted_filter)
    have "set xs \<subseteq> set (fst (getEnabledActions h token))"
      using sub by (auto dest: list_emb_set)
    then have "\<forall>a\<in>set xs. enabled a" by (auto simp: getEnabledActions_eq)
    with subseq_sorted_map [OF sub srt] show ?thesis by simp
  qed
  with x(1) show ?thesis by (auto simp: emit_def stored_actions_append)
qed

theorem main_loop_ordered_enabled_witness:
  "shouldExecute b_if_hit (running [miss_then_b, b_if_hit] [(''a'', miss_outcome)]) = Inr False \<and>
   executeLoop demo_game [miss_then_b, b_if_hit] [b_if_hit]
       (running [miss_then_b, b_if_hit] [(''a'', miss_outcome)]) =
     executeLoop demo_game [miss_then_b, b_if_hit] []
       (emit (Log_Skipping b_if_hit) (running [miss_then_b, b_if_hit] [(''a'', miss_outcome)])) \<and>
   stored_actions (events (snd (onCombatTurn demo_game demo_combat \<lparr> turn = Some 1 \<rparr>
                  (demo_host [b_if_hit, disabled_b, miss_then_b], idle)))) = [miss_then_b]"
proof -
  let ?s = "running [miss_then_b, b_if_hit] [(''a'', miss_outcome)]"
  have h: "shouldExecute b_if_hit ?s = Inr False" by code_simp
  have r: "stored_actions (events (snd (onCombatTurn demo_game demo_combat \<lparr> turn = Some 1 \<rparr>
                  (demo_host [b_if_hit, disabled_b, miss_then_b], idle)))) = [miss_then_b]"
    by code_simp
  from main_loop_ordered_enabled [where a = b_if_hit and st = ?s and g = demo_game and as = "[miss_then_b, b_if_hit]"
      and rest = "[]" and combat = demo_combat
      and updateData = "\<lparr> turn = Some 1 \<rparr>" and h = "demo_host [b_if_hit, disabled_b, miss_then_b]"
      and s = idle] h r
  show ?thesis by blast
qed

subsection \<open>Branch dispatch\<close>

lemma dispatched_actions_append:
  "dispatched_actions (xs @ ys) = dispatched_actions xs @ dispatched_actions ys"
  by (induction xs rule: dispatched_actions.induct) simp_all

lemma executeAction_dispatched:
  "dispatched_actions (events (snd (executeAction g a s))) = dispatched_actions (events s) @ [a]"
  by (simp add: executeAction_events dispatched_actions_append split: sum.splits)

lemma branch_dispatched:
  "\<exists>xs. dispatched_actions (events (branch g as t s)) = dispatched_actions (events s) @ xs \<and>
        set xs \<subseteq> set as"
proof (cases "find (\<lambda>a. Some (id' a) = t) as")
  case None
  then show ?thesis by (simp add: branch_def)
next
  case (Some b)
  then have "b \<in> set as" by (auto simp: find_Some_iff)
  with Some show ?thesis by (simp add: branch_def executeAction_dispatched)
qed

lemma branch_absent:
  "find (\<lambda>a. id' a = t) as = None \<Longrightarrow> branch g as (Some t) s = s"
  by (simp add: branch_def)

lemma executeLoop_dispatched:
  "\<exists>xs. dispatched_actions (events (snd (executeLoop g as rest s))) = dispatched_actions (events s) @ xs \<and>
        set xs \<subseteq> set rest \<union> set as"
proof (induction rest arbitrary: s)
  case Nil
  show ?case by simp
next
  case (Cons a rest)
  show ?case
  proof (cases "shouldExecute a s")
    case (Inl e)
    then show ?thesis by simp
  next
    case (Inr b)
    show ?thesis
    proof (cases b)
      case False
      obtain xs where "dispatched_actions (events (snd (executeLoop g as rest (emit (Log_Skipping a) s))))
            = dispatched_actions (events (emit (Log_Skipping a) s)) @ xs" and "set xs \<subseteq> set rest \<union> set as"
        using Cons.IH [of "emit (Log_Skipping a) s"] by blast
      with Inr False show ?thesis
        by (auto simp: emit_def dispatched_actions_append)
    next
      case True
      obtain r s1 where ea: "executeAction g a s = (r, s1)" by (cases "executeAction g a s")
      have d1: "dispatched_actions (events s1) = dispatched_actions (events s) @ [a]"
        using executeAction_dispatched [of g a s] ea by simp
      show ?thesis
      proof (cases "currentWorkflow s")
        case None
        then have "currentWorkflow s1 = None"
          using executeAction_frame [of g a s] ea by simp
        with Inr True ea d1 show ?thesis by simp
      next
        case (Some flow)
        define s2 where "s2 = record_result a r flow s1"
        define s3 where "s3 = (if success r \<and> truthy (onSuccess a) then branch g as (onSuccess a) s2
                            else if \<not> success r \<and> truthy (onFailure a) then branch g as (onFailure a) s2
                            else s2)"
        have step: "executeLoop g as (a # rest) s = executeLoop g as rest s3"
          using executeLoop_step(2) [OF _ ea Some, of as rest] Inr True
          by (simp add: s2_def s3_def Let_def)
        have d2: "dispatched_actions (events s2) = dispatched_actions (events s) @ [a]"
          using d1 by (simp add: s2_def record_result_events dispatched_actions_append)
        have "\<exists>ys. dispatched_actions (events s3) = dispatched_actions (events s2) @ ys \<and> set ys \<subseteq> set as"
          using branch_dispatched [of g as _ s2] by (simp add: s3_def)
        then obtain ys where d3: "dispatched_actions (events s3) = dispatched_actions (events s) @ a # ys"
            and ys: "set ys \<subseteq> set as"
          using d2 by auto
        obtain xs where "dispatched_actions (events (snd (executeLoop g as rest s3)))
            = dispatched_actions (events s3) @ xs" and "set xs \<subseteq> set rest \<union> set as"
          using Cons.IH [of s3] by blast
        with d3 ys step show ?thesis by auto
      qed
    qed
  qed
qed

lemma executeQueue_dispatched:
  "\<exists>xs. dispatched_actions (events (executeQueue g token as s)) = dispatched_actions (events s) @ xs \<and>
        set xs \<subseteq> set as"
proof (cases "executing s")
  case True
  then show ?thesis by (simp add: executeQueue_def emit_def dispatched_actions_append)
next
  case False
  define s0 where "s0 = s\<lparr> executing := True,
                    currentWorkflow :=
                      Some \<lparr> wf_token = token, wf_actions = as, results = [],
                             wf_context = \<lparr> ctx_actor = actor token, ctx_token = token \<rparr> \<rparr> \<rparr>"
  obtain err s1 where l: "executeLoop g as as s0 = (err, s1)" by (cases "executeLoop g as as s0")
  obtain xs where "dispatched_actions (events s1) = dispatched_actions (events s0) @ xs"
      and "set xs \<subseteq> set as"
    using executeLoop_dispatched [of g as as s0] l by auto
  moreover have "dispatched_actions (events (executeQueue g token as s)) = dispatched_actions (events s1)"
    using False l
    by (cases err) (simp_all add: executeQueue_def s0_def [symmetric] emit_def dispatched_actions_append)
  ultimately show ?thesis by (auto simp: s0_def)
qed

lemma onCombatTurn_dispatched:
  "\<exists>xs. dispatched_actions (events (snd (onCombatTurn g combat updateData (h, s))))
          = dispatched_actions (events s) @ xs \<and> (\<forall>a\<in>set xs. enabled a)"
proof -
  have triv: "\<exists>xs. dispatched_actions (events s) = dispatched_actions (events s) @ xs \<and>
      (\<forall>a\<in>set xs. enabled a)"
    by simp
  show ?thesis
  proof (cases "combatant combat")
    case None
    with triv show ?thesis by (simp add: onCombatTurn_def)
  next
    case (Some c)
    show ?thesis
    proof (cases "token_object c")
      case None
      with Some triv show ?thesis by (simp add: onCombatTurn_def)
    next
      case tok: (Some token)
      obtain as h1 where ge: "getEnabledActions h token = (as, h1)"
        by (cases "getEnabledActions h token")
      have en: "\<forall>a\<in>set as. enabled a"
        using getEnabledActions_eq [of h token] ge by auto
      obtain xs where x: "dispatched_actions (events (executeQueue g token as
                (emit (Log_Turn (length as) (token_name token)) s)))
            = dispatched_actions (events (emit (Log_Turn (length as) (token_name token)) s)) @ xs"
          "set xs \<subseteq> set as"
        using executeQueue_dispatched by blast
      have x': "dispatched_actions (events (executeQueue g token as
                (emit (Log_Turn (length as) (token_name token)) s)))
            = dispatched_actions (events s) @ xs"
        using x(1) by (simp add: emit_def dispatched_actions_append)
      have "\<forall>a\<in>set xs. enabled a" using x(2) en by auto
      with Some tok ge x' triv show ?thesis
        by (auto simp add: onCombatTurn_def)
    qed
  qed
qed

text \<open>
  Claim C1, as amended. The branch target is looked up by id in the list that
  \<open>executeQueue\<close> was given, not in the stored queue. When the main loop has dispatched
  \<open>A\<close>, the result is a success and \<open>onSuccess\<close> names \<open>t\<close> (or a failure and
  \<open>onFailure\<close> names \<open>t\<close>), and \<open>B\<close> is the first action of that list with id \<open>t\<close>,
  then \<open>B\<close> is dispatched next, before the rest of the loop, whatever its order,
  enabled flag and condition. When no action of the list has the id \<open>t\<close>, nothing is
  dispatched for the branch: the loop goes on with the rest from the state in which the
  result of \<open>A\<close> has been recorded. The list that the turn trigger hands over holds
  enabled actions only: a target found in it is enabled, and every action that a turn
  dispatches, in the main loop or as a branch, is enabled.
\<close>

theorem branch_target_resolved_in_run_list:
  "(currentWorkflow s = Some flow \<and> shouldExecute A s = Inr True \<and>
    executeAction g A s = (r, s1) \<and>
    ((success r \<and> onSuccess A = Some t) \<or> (\<not> success r \<and> onFailure A = Some t)) \<and>
    t \<noteq> [] \<and> find (\<lambda>a. id' a = t) as = Some B \<longrightarrow>
      executeLoop g as (A # rest) s =
        executeLoop g as rest (snd (executeAction g B (record_result A r flow s1))) \<and>
      (\<exists>tail. events (snd (executeLoop g as (A # rest) s)) =
                events s1 @ [Result_Stored A r, Log_Executing B] @ tail)) \<and>
   (currentWorkflow s = Some flow \<and> shouldExecute A s = Inr True \<and>
    executeAction g A s = (r, s1) \<and>
    ((success r \<and> onSuccess A = Some t) \<or> (\<not> success r \<and> onFailure A = Some t)) \<and>
    find (\<lambda>a. id' a = t) as = None \<longrightarrow>
      executeLoop g as (A # rest) s = executeLoop g as rest (record_result A r flow s1) \<and>
      events (record_result A r flow s1) = events s1 @ [Result_Stored A r]) \<and>
   (find (\<lambda>a. id' a = t) as = None \<longrightarrow> branch g as (Some t) s = s) \<and>
   (find (\<lambda>a. id' a = t) (fst (getEnabledActions h token)) = Some B \<longrightarrow> enabled B) \<and>
   (\<exists>xs. dispatched_actions (events (snd (onCombatTurn g combat updateData (h, s0)))) =
            dispatched_actions (events s0) @ xs \<and>
          (\<forall>a\<in>set xs. enabled a))"
proof (intro conjI impI)
  assume a: "currentWorkflow s = Some flow \<and> shouldExecute A s = Inr True \<and>
    executeAction g A s = (r, s1) \<and>
    ((success r \<and> onSuccess A = Some t) \<or> (\<not> success r \<and> onFailure A = Some t)) \<and>
    t \<noteq> [] \<and> find (\<lambda>a. id' a = t) as = Some B"
  let ?s2 = "record_result A r flow s1"
  let ?s3 = "snd (executeAction g B ?s2)"
  show step: "executeLoop g as (A # rest) s = executeLoop g as rest ?s3"
    using a by (intro branch_step) auto
  obtain ev where e3: "events ?s3 = events ?s2 @ Log_Executing B # ev"
    using executeAction_events [of g B ?s2] by simp
  obtain tl where "events (snd (executeLoop g as rest ?s3)) = events ?s3 @ tl"
    using executeLoop_events [of g as rest ?s3] by blast
  with e3 step show "\<exists>tail. events (snd (executeLoop g as (A # rest) s)) =
                events s1 @ [Result_Stored A r, Log_Executing B] @ tail"
    by (simp add: record_result_events)
next
  assume a: "currentWorkflow s = Some flow \<and> shouldExecute A s = Inr True \<and>
    executeAction g A s = (r, s1) \<and>
    ((success r \<and> onSuccess A = Some t) \<or> (\<not> success r \<and> onFailure A = Some t)) \<and>
    find (\<lambda>a. id' a = t) as = None"
  then have "executeLoop g as (A # rest) s =
      executeLoop g as rest
        (let s2 = record_result A r flow s1
         in if success r \<and> truthy (onSuccess A) then branch g as (onSuccess A) s2
            else if \<not> success r \<and> truthy (onFailure A) then branch g as (onFailure A) s2
            else s2)"
    by (intro executeLoop_step(2)) auto
  with a show "executeLoop g as (A # rest) s = executeLoop g as rest (record_result A r flow s1)"
    by (auto simp: Let_def branch_absent)
  show "events (record_result A r flow s1) = events s1 @ [Result_Stored A r]"
    by (rule record_result_events)
next
  assume "find (\<lambda>a. id' a = t) as = None"
  then show "branch g as (Some t) s = s" by (rule branch_absent)
next
  assume "find (\<lambda>a. id' a = t) (fst (getEnabledActions h token)) = Some B"
  then have "B \<in> set (fst (getEnabledActions h token))"
    by (auto simp: find_Some_iff)
  then show "enabled B" by (simp add: getEnabledActions_eq)
next
  show "\<exists>xs. dispatched_actions (events (snd (onCombatTurn g combat updateData (h, s0)))) =
            dispatched_actions (events s0) @ xs \<and> (\<forall>a\<in>set xs. enabled a)"
    by (rule onCombatTurn_dispatched)
qed

theorem branch_target_resolved_in_run_list_witness:
  "(currentWorkflow (running [attack_then_b, disabled_b] []) = Some (demo_flow [attack_then_b, disabled_b] []) \<and>
   shouldExecute attack_then_b (running [attack_then_b, disabled_b] []) = Inr True \<and>
   success (fst (executeAction demo_game attack_then_b (running [attack_then_b, disabled_b] []))) \<and>
   onSuccess attack_then_b = Some ''b'' \<and>
   find (\<lambda>a. id' a = ''b'') [attack_then_b, disabled_b] = Some disabled_b \<and>
   \<not> enabled disabled_b \<and>
   (\<exists>tail. events (snd (executeLoop demo_game [attack_then_b, disabled_b] [attack_then_b, disabled_b]
                          (running [attack_then_b, disabled_b] []))) =
          events (snd (executeAction demo_game attack_then_b (running [attack_then_b, disabled_b] []))) @
          [Result_Stored attack_then_b
             (fst (executeAction demo_game attack_then_b (running [attack_then_b, disabled_b] []))),
           Log_Executing disabled_b] @ tail) \<and>
   find (\<lambda>a. id' a = ''a'')
     (fst (getEnabledActions (demo_host [disabled_b, attack_then_b]) demo_token)) = Some attack_then_b \<and>
   enabled attack_then_b) \<and>
   (currentWorkflow (running [attack_then_gone] []) = Some (demo_flow [attack_then_gone] []) \<and>
   shouldExecute attack_then_gone (running [attack_then_gone] []) = Inr True \<and>
   success (fst (executeAction demo_game attack_then_gone (running [attack_then_gone] []))) \<and>
   onSuccess attack_then_gone = Some ''gone'' \<and>
   find (\<lambda>a. id' a = ''gone'') [attack_then_gone] = None \<and>
   executeLoop demo_game [attack_then_gone] [attack_then_gone] (running [attack_then_gone] []) =
     executeLoop demo_game [attack_then_gone] []
       (record_result attack_then_gone
          (fst (executeAction demo_game attack_then_gone (running [attack_then_gone] [])))
          (demo_flow [attack_then_gone] [])
          (snd (executeAction demo_game attack_then_gone (running [attack_then_gone] [])))) \<and>
   branch demo_game [attack_then_gone] (Some ''gone'') (running [attack_then_gone] []) =
     running [attack_then_gone] [])"
proof -
  have found: "currentWorkflow (running [attack_then_b, disabled_b] []) = Some (demo_flow [attack_then_b, disabled_b] []) \<and>
   shouldExecute attack_then_b (running [attack_then_b, disabled_b] []) = Inr True \<and>
   success (fst (executeAction demo_game attack_then_b (running [attack_then_b, disabled_b] []))) \<and>
   onSuccess attack_then_b = Some ''b'' \<and>
   find (\<lambda>a. id' a = ''b'') [attack_then_b, disabled_b] = Some disabled_b \<and>
   \<not> enabled disabled_b \<and>
   (\<exists>tail. events (snd (executeLoop demo_game [attack_then_b, disabled_b] [attack_then_b, disabled_b]
                          (running [attack_then_b, disabled_b] []))) =
          events (snd (executeAction demo_game attack_then_b (running [attack_then_b, disabled_b] []))) @
          [Result_Stored attack_then_b
             (fst (executeAction demo_game attack_then_b (running [attack_then_b, disabled_b] []))),
           Log_Executing disabled_b] @ tail) \<and>
   find (\<lambda>a. id' a = ''a'')
     (fst (getEnabledActions (demo_host [disabled_b, attack_then_b]) demo_token)) = Some attack_then_b \<and>
   enabled attack_then_b"
  proof -
    let ?as = "[attack_then_b, disabled_b]"
    let ?s = "running ?as []"
    have h1: "currentWorkflow ?s = Some (demo_flow ?as [])" by (simp add: running_def)
    have h2: "shouldExecute attack_then_b ?s = Inr True" by code_simp
    have h3: "success (fst (executeAction demo_game attack_then_b ?s))" by code_simp
    have h4: "onSuccess attack_then_b = Some ''b''" by code_simp
    have h5: "find (\<lambda>a. id' a = ''b'') ?as = Some disabled_b" by code_simp
    have h6: "\<not> enabled disabled_b" by code_simp
    have h7: "executeAction demo_game attack_then_b ?s =
        (fst (executeAction demo_game attack_then_b ?s), snd (executeAction demo_game attack_then_b ?s))"
      by simp
    from branch_target_resolved_in_run_list [where s = ?s and flow = "demo_flow ?as []" and A = attack_then_b and g = demo_game
        and r = "fst (executeAction demo_game attack_then_b ?s)"
        and ?s1.0 = "snd (executeAction demo_game attack_then_b ?s)" and t = "''b''" and as = ?as
        and B = disabled_b and rest = "[disabled_b]"]
      h1 h2 h3 h4 h5 h7
    have "\<exists>tail. events (snd (executeLoop demo_game ?as ?as ?s)) =
            events (snd (executeAction demo_game attack_then_b ?s)) @
            [Result_Stored attack_then_b (fst (executeAction demo_game attack_then_b ?s)),
             Log_Executing disabled_b] @ tail"
      by blast
    moreover
    have h8: "find (\<lambda>a. id' a = ''a'')
        (fst (getEnabledActions (demo_host [disabled_b, attack_then_b]) demo_token)) = Some attack_then_b"
      by code_simp
    from branch_target_resolved_in_run_list
      [where t = "''a''" and h = "demo_host [disabled_b, attack_then_b]" and token = demo_token
         and B = attack_then_b] h8
    have "enabled attack_then_b" by blast
    ultimately show ?thesis using h1 h2 h3 h4 h5 h6 h8 by blast
  qed
  have absent: "currentWorkflow (running [attack_then_gone] []) = Some (demo_flow [attack_then_gone] []) \<and>
   shouldExecute attack_then_gone (running [attack_then_gone] []) = Inr True \<and>
   success (fst (executeAction demo_game attack_then_gone (running [attack_then_gone] []))) \<and>
   onSuccess attack_then_gone = Some ''gone'' \<and>
   find (\<lambda>a. id' a = ''gone'') [attack_then_gone] = None \<and>
   executeLoop demo_game [attack_then_gone] [attack_then_gone] (running [attack_then_gone] []) =
     executeLoop demo_game [attack_then_gone] []
       (record_result attack_then_gone
          (fst (executeAction demo_game attack_then_gone (running [attack_then_gone] [])))
          (demo_flow [attack_then_gone] [])
          (snd (executeAction demo_game attack_then_gone (running [attack_then_gone] [])))) \<and>
   branch demo_game [attack_then_gone] (Some ''gone'') (running [attack_then_gone] []) =
     running [attack_then_gone] []"
  proof -
    let ?as = "[attack_then_gone]"
    let ?s = "running ?as []"
    have h1: "currentWorkflow ?s = Some (demo_flow ?as [])" by (simp add: running_def)
    have h2: "shouldExecute attack_then_gone ?s = Inr True" by code_simp
    have h3: "success (fst (executeAction demo_game attack_then_gone ?s))" by code_simp
    have h4: "onSuccess attack_then_gone = Some ''gone''" by code_simp
    have h5: "find (\<lambda>a. id' a = ''gone'') ?as = None" by code_simp
    have h7: "executeAction demo_game attack_then_gone ?s =
        (fst (executeAction demo_game attack_then_gone ?s), snd (executeAction demo_game attack_then_gone ?s))"
      by simp
    note t = branch_target_resolved_in_run_list [where s = ?s and flow = "demo_flow ?as []" and A = attack_then_gone and g = demo_game
        and r = "fst (executeAction demo_game attack_then_gone ?s)"
        and ?s1.0 = "snd (executeAction demo_game attack_then_gone ?s)" and t = "''gone''" and as = ?as
        and rest = "[]"]
    from t h1 h2 h3 h4 h5 h7
    have "executeLoop demo_game ?as ?as ?s =
       executeLoop demo_game ?as []
         (record_result attack_then_gone (fst (executeAction demo_game attack_then_gone ?s))
            (demo_flow ?as []) (snd (executeAction demo_game attack_then_gone ?s)))"
      by blast
    moreover from t h5 have "branch demo_game ?as (Some ''gone'') ?s = ?s" by blast
    ultimately show ?thesis using h1 h2 h3 h4 h5 by blast
  qed
  from found absent show ?thesis by (rule conjI)
qed

text \<open>
  The claim as stated fails for a disabled target under the turn trigger: the queue
  holds \<open>a\<close> with \<open>onSuccess = b\<close> and the disabled \<open>b\<close>; \<open>a\<close> is dispatched and succeeds,
  and the run ends without a dispatch of \<open>b\<close>.
\<close>

theorem disabled_branch_target_not_dispatched:
  "fst (getQueue (demo_host [attack_then_b, disabled_b]) demo_token) = [attack_then_b, disabled_b] \<and>
   onSuccess attack_then_b = Some (id' disabled_b) \<and>
   \<not> enabled disabled_b \<and>
   events (snd (onCombatTurn demo_game demo_combat \<lparr> turn = Some 1 \<rparr>
                  (demo_host [attack_then_b, disabled_b], idle))) =
     [Log_Turn 1 ''Goblin'', Log_Executing attack_then_b, Result_Stored attack_then_b hit_outcome,
      Notify_Info ''Goblin'' 1] \<and>
   success hit_outcome"
  by code_simp

text \<open>
  Claim C7, as amended. The result of a branch target is dropped: after the main loop
  has dispatched \<open>A\<close> and the branch has dispatched \<open>B\<close>, the ledger is the ledger from
  before with the result of \<open>A\<close> set under the id of \<open>A\<close>, and \<open>actionsCompleted\<close>
  is its size. Neither \<open>executeAction\<close> nor a branch changes the ledger or the status.
\<close>

theorem branch_outcome_not_recorded:
  "(currentWorkflow s = Some flow \<and> shouldExecute A s = Inr True \<and>
    executeAction g A s = (r, s1) \<and>
    ((success r \<and> onSuccess A = Some t) \<or> (\<not> success r \<and> onFailure A = Some t)) \<and>
    t \<noteq> [] \<and> find (\<lambda>a. id' a = t) as = Some B \<longrightarrow>
      (\<exists>s3. executeLoop g as (A # rest) s = executeLoop g as rest s3 \<and>
            (\<exists>before after. events s3 = before @ Log_Executing B # after) \<and>
            currentWorkflow s3 = Some (flow\<lparr> results := map_set (id' A) r (results flow) \<rparr>) \<and>
            actionsCompleted (getStatus s3) = length (map_set (id' A) r (results flow)))) \<and>
   currentWorkflow (snd (executeAction g B s)) = currentWorkflow s \<and>
   currentWorkflow (branch g as target s) = currentWorkflow s \<and>
   getStatus (branch g as target s) = getStatus s"
proof (intro conjI impI)
  assume a: "currentWorkflow s = Some flow \<and> shouldExecute A s = Inr True \<and>
    executeAction g A s = (r, s1) \<and>
    ((success r \<and> onSuccess A = Some t) \<or> (\<not> success r \<and> onFailure A = Some t)) \<and>
    t \<noteq> [] \<and> find (\<lambda>a. id' a = t) as = Some B"
  let ?s2 = "record_result A r flow s1"
  let ?s3 = "snd (executeAction g B ?s2)"
  have step: "executeLoop g as (A # rest) s = executeLoop g as rest ?s3"
    using a by (intro branch_step) auto
  have ev: "\<exists>before after. events ?s3 = before @ Log_Executing B # after"
    using executeAction_events [of g B ?s2] by blast
  have w: "currentWorkflow ?s3 = Some (flow\<lparr> results := map_set (id' A) r (results flow) \<rparr>)"
    using executeAction_frame [of g B ?s2] by (simp add: record_result_workflow)
  have "actionsCompleted (getStatus ?s3) = length (map_set (id' A) r (results flow))"
    using w by (simp add: getStatus_def)
  with step ev w show "\<exists>s3. executeLoop g as (A # rest) s = executeLoop g as rest s3 \<and>
            (\<exists>before after. events s3 = before @ Log_Executing B # after) \<and>
            currentWorkflow s3 = Some (flow\<lparr> results := map_set (id' A) r (results flow) \<rparr>) \<and>
            actionsCompleted (getStatus s3) = length (map_set (id' A) r (results flow))"
    by blast
next
  show "currentWorkflow (snd (executeAction g B s)) = currentWorkflow s"
    by (simp add: executeAction_frame)
  show "currentWorkflow (branch g as target s) = currentWorkflow s"
    by (simp add: branch_frame)
  show "getStatus (branch g as target s) = getStatus s"
    by (simp add: getStatus_def branch_frame)
qed

theorem branch_outcome_not_recorded_witness:
  "currentWorkflow (running [miss_then_b, b_if_hit] []) = Some (demo_flow [miss_then_b, b_if_hit] []) \<and>
   shouldExecute miss_then_b (running [miss_then_b, b_if_hit] []) = Inr True \<and>
   executeAction demo_game miss_then_b (running [miss_then_b, b_if_hit] []) =
     (miss_outcome, snd (executeAction demo_game miss_then_b (running [miss_then_b, b_if_hit] []))) \<and>
   success miss_outcome \<and> onSuccess miss_then_b = Some ''b'' \<and>
   find (\<lambda>a. id' a = ''b'') [miss_then_b, b_if_hit] = Some b_if_hit \<and>
   (\<exists>s3. executeLoop demo_game [miss_then_b, b_if_hit] [miss_then_b, b_if_hit]
            (running [miss_then_b, b_if_hit] []) =
          executeLoop demo_game [miss_then_b, b_if_hit] [b_if_hit] s3 \<and>
          currentWorkflow s3 = Some (demo_flow [miss_then_b, b_if_hit] [(''a'', miss_outcome)]))"
proof -
  let ?as = "[miss_then_b, b_if_hit]"
  let ?s = "running ?as []"
  have h1: "currentWorkflow ?s = Some (demo_flow ?as [])" by (simp add: running_def)
  have h2: "shouldExecute miss_then_b ?s = Inr True" by code_simp
  have h3: "fst (executeAction demo_game miss_then_b ?s) = miss_outcome" by code_simp
  have h3': "executeAction demo_game miss_then_b ?s =
      (miss_outcome, snd (executeAction demo_game miss_then_b ?s))"
    using h3 by (metis prod.collapse)
  have h4: "success miss_outcome" by code_simp
  have h5: "onSuccess miss_then_b = Some ''b''" by code_simp
  have h6: "find (\<lambda>a. id' a = ''b'') ?as = Some b_if_hit" by code_simp
  have h7: "id' miss_then_b = ''a''" by code_simp
  have h8: "(demo_flow ?as [])\<lparr> results := map_set ''a'' miss_outcome (results (demo_flow ?as [])) \<rparr>
       = demo_flow ?as [(''a'', miss_outcome)]"
    by (simp add: demo_flow_def)
  from branch_outcome_not_recorded [where s = ?s and flow = "demo_flow ?as []" and A = miss_then_b and g = demo_game
      and r = miss_outcome
      and ?s1.0 = "snd (executeAction demo_game miss_then_b ?s)" and t = "''b''" and as = ?as
      and B = b_if_hit and rest = "[b_if_hit]"]
    h1 h2 h3' h4 h5 h6
  have "\<exists>s3. executeLoop demo_game ?as ?as ?s = executeLoop demo_game ?as [b_if_hit] s3 \<and>
          currentWorkflow s3 =
            Some ((demo_flow ?as [])\<lparr> results := map_set (id' miss_then_b) miss_outcome
                                                    (results (demo_flow ?as [])) \<rparr>)"
    by blast
  then have "\<exists>s3. executeLoop demo_game ?as ?as ?s = executeLoop demo_game ?as [b_if_hit] s3 \<and>
          currentWorkflow s3 = Some (demo_flow ?as [(''a'', miss_outcome)])"
    by (simp only: h7 h8)
  with h1 h2 h3' h4 h5 h6 show ?thesis by blast
qed

text \<open>
  The claim as stated fails: \<open>a\<close> misses but succeeds and branches to \<open>b\<close>, which is
  dispatched; the main loop then skips \<open>b\<close> (its condition wants a hit), and the ledger
  ends with the one entry of \<open>a\<close>.
\<close>

theorem branch_outcome_missing_from_ledger:
  "events (snd (executeLoop demo_game [miss_then_b, b_if_hit] [miss_then_b, b_if_hit]
                  (running [miss_then_b, b_if_hit] []))) =
     [Log_Executing miss_then_b, Result_Stored miss_then_b miss_outcome, Log_Executing b_if_hit,
      Log_Skipping b_if_hit] \<and>
   onSuccess miss_then_b = Some (id' b_if_hit) \<and>
   success miss_outcome \<and>
   map_option (\<lambda>flow. map fst (results flow))
     (currentWorkflow (snd (executeLoop demo_game [miss_then_b, b_if_hit] [miss_then_b, b_if_hit]
                              (running [miss_then_b, b_if_hit] [])))) = Some [''a''] \<and>
   actionsCompleted (getStatus (snd (executeLoop demo_game [miss_then_b, b_if_hit] [miss_then_b, b_if_hit]
                              (running [miss_then_b, b_if_hit] [])))) = 1"
  by code_simp

subsection \<open>Single flight\<close>

text \<open>
  Claim C2. A call of \<open>executeQueue\<close> while the guard is set only logs that a run is
  active: no action is dispatched, the run context with its ledger, the guard, the world
  and the status stay as they are, and nothing is kept of the call.
\<close>

theorem executeQueue_single_flight:
  "executing s \<longrightarrow>
     executeQueue g token as s = emit Log_AlreadyExecuting s \<and>
     events (executeQueue g token as s) = events s @ [Log_AlreadyExecuting] \<and>
     currentWorkflow (executeQueue g token as s) = currentWorkflow s \<and>
     executing (executeQueue g token as s) \<and>
     world (executeQueue g token as s) = world s \<and>
     getStatus (executeQueue g token as s) = getStatus s"
  by (simp add: executeQueue_def emit_def getStatus_def)

theorem executeQueue_single_flight_witness:
  "executing (running [attack_then_b] []) \<and>
   executeQueue demo_game demo_token [attack_then_b] (running [attack_then_b] []) =
     emit Log_AlreadyExecuting (running [attack_then_b] []) \<and>
   currentWorkflow (executeQueue demo_game demo_token [attack_then_b] (running [attack_then_b] [])) =
     Some (demo_flow [attack_then_b] [])"
proof -
  have e: "executing (running [attack_then_b] [])" by (simp add: running_def)
  have w: "currentWorkflow (running [attack_then_b] []) = Some (demo_flow [attack_then_b] [])"
    by (simp add: running_def)
  from executeQueue_single_flight [of "running [attack_then_b] []" demo_game demo_token "[attack_then_b]"] e w
  show ?thesis by (simp add: emit_def)
qed

subsection \<open>Attack conditions\<close>

lemma hit_not_miss: "ATTACK_HIT \<noteq> ATTACK_MISS"
  by (simp add: ATTACK_HIT_def ATTACK_MISS_def)

lemma scan_results_first:
  assumes "t = ATTACK_HIT \<or> t = ATTACK_MISS"
  shows "scan_results t rs =
     (case find (\<lambda>(i, r). result_type r = Some ''attack'') rs of
        None \<Rightarrow> True
      | Some (i, r) \<Rightarrow> if t = ATTACK_HIT then hit r = Some True else hit r = Some False)"
proof (induction rs)
  case Nil
  show ?case by simp
next
  case (Cons x rs)
  obtain i r where x: "x = (i, r)" by (cases x)
  from assms show ?case
  proof
    assume "t = ATTACK_HIT"
    with Cons x show ?thesis by simp
  next
    assume "t = ATTACK_MISS"
    with Cons x hit_not_miss show ?thesis by simp
  qed
qed

lemma shouldExecute_attack:
  "cond_type (conditions a) = ATTACK_HIT \<or> cond_type (conditions a) = ATTACK_MISS \<Longrightarrow>
   shouldExecute a s = checkPreviousAttackResult a s"
  by (auto simp: shouldExecute_def ATTACK_HIT_def ATTACK_MISS_def ALWAYS_def TARGET_IN_RANGE_def
        RESOURCE_AVAILABLE_def HP_THRESHOLD_def)

lemma dispatched_first:
  assumes "shouldExecute a s = Inr True"
  shows "\<exists>tail. events (snd (executeLoop g as (a # rest) s)) = events s @ Log_Executing a # tail"
proof -
  obtain r s1 where ea: "executeAction g a s = (r, s1)" by (cases "executeAction g a s")
  obtain ev where e1: "events s1 = events s @ Log_Executing a # ev"
    using executeAction_events [of g a s] ea by simp
  show ?thesis
  proof (cases "currentWorkflow s")
    case None
    then have "currentWorkflow s1 = None" using executeAction_frame [of g a s] ea by simp
    with assms ea e1 show ?thesis by simp
  next
    case (Some flow)
    let ?s2 = "record_result a r flow s1"
    let ?s3 = "if success r \<and> truthy (onSuccess a) then branch g as (onSuccess a) ?s2
               else if \<not> success r \<and> truthy (onFailure a) then branch g as (onFailure a) ?s2
               else ?s2"
    have step: "executeLoop g as (a # rest) s = executeLoop g as rest ?s3"
      using executeLoop_step(2) [OF assms ea Some, of as rest] by (simp add: Let_def)
    obtain t3 where "events ?s3 = events ?s2 @ t3"
      using branch_events [of g as _ ?s2] by (cases "success r \<and> truthy (onSuccess a)"; cases "\<not> success r \<and> truthy (onFailure a)") auto
    moreover obtain tl where "events (snd (executeLoop g as rest ?s3)) = events ?s3 @ tl"
      using executeLoop_events [of g as rest ?s3] by blast
    ultimately show ?thesis using step e1 by (simp add: record_result_events)
  qed
qed

text \<open>
  Claim C5. For a condition of type \<open>attackHit\<close> or \<open>attackMiss\<close> the check looks for
  the first entry of the ledger, in insertion order, whose result is tagged \<open>attack\<close>:
  the condition is \<open>hit === true\<close> for \<open>attackHit\<close> and \<open>hit === false\<close> for \<open>attackMiss\<close>
  on that entry, and true when there is none. On the empty ledger it is true, so the
  first action of a run with such a condition is dispatched.
\<close>

theorem attack_condition_first_entry:
  "(currentWorkflow s = Some flow \<and>
    (cond_type (conditions a) = ATTACK_HIT \<or> cond_type (conditions a) = ATTACK_MISS) \<longrightarrow>
      checkPreviousAttackResult a s =
        Inr (case find (\<lambda>(i, r). result_type r = Some ''attack'') (results flow) of
               None \<Rightarrow> True
             | Some (i, r) \<Rightarrow> if cond_type (conditions a) = ATTACK_HIT then hit r = Some True
                              else hit r = Some False) \<and>
      shouldExecute a s = checkPreviousAttackResult a s \<and>
      (results flow = [] \<longrightarrow> shouldExecute a s = Inr True)) \<and>
   (\<not> executing s0 \<and>
    (cond_type (conditions a) = ATTACK_HIT \<or> cond_type (conditions a) = ATTACK_MISS) \<longrightarrow>
      (\<exists>tail. events (executeQueue g token (a # rest) s0) = events s0 @ Log_Executing a # tail))"
proof (intro conjI impI)
  assume h: "currentWorkflow s = Some flow \<and>
    (cond_type (conditions a) = ATTACK_HIT \<or> cond_type (conditions a) = ATTACK_MISS)"
  then show c: "checkPreviousAttackResult a s =
        Inr (case find (\<lambda>(i, r). result_type r = Some ''attack'') (results flow) of
               None \<Rightarrow> True
             | Some (i, r) \<Rightarrow> if cond_type (conditions a) = ATTACK_HIT then hit r = Some True
                              else hit r = Some False)"
    by (simp add: checkPreviousAttackResult_def scan_results_first)
  show e: "shouldExecute a s = checkPreviousAttackResult a s"
    using h by (simp add: shouldExecute_attack)
  show "shouldExecute a s = Inr True" if "results flow = []"
    using that c e by simp
next
  assume h: "\<not> executing s0 \<and>
    (cond_type (conditions a) = ATTACK_HIT \<or> cond_type (conditions a) = ATTACK_MISS)"
  define s1 where "s1 = s0\<lparr> executing := True,
                    currentWorkflow :=
                      Some \<lparr> wf_token = token, wf_actions = a # rest, results = [],
                             wf_context = \<lparr> ctx_actor = actor token, ctx_token = token \<rparr> \<rparr> \<rparr>"
  have "shouldExecute a s1 = Inr True"
    using h by (simp add: shouldExecute_attack checkPreviousAttackResult_def s1_def)
  then obtain tl where t: "events (snd (executeLoop g (a # rest) (a # rest) s1))
        = events s1 @ Log_Executing a # tl"
    using dispatched_first by blast
  obtain err s2 where l: "executeLoop g (a # rest) (a # rest) s1 = (err, s2)"
    by (cases "executeLoop g (a # rest) (a # rest) s1")
  have "\<exists>more. events (executeQueue g token (a # rest) s0) = events s2 @ more"
    using h l by (cases err) (simp_all add: executeQueue_def s1_def [symmetric] emit_def)
  with t l show "\<exists>tail. events (executeQueue g token (a # rest) s0) = events s0 @ Log_Executing a # tail"
    by (auto simp: s1_def)
qed

theorem attack_condition_first_entry_witness:
  "currentWorkflow (running [miss_then_b, b_if_hit] [(''a'', miss_outcome)]) =
     Some (demo_flow [miss_then_b, b_if_hit] [(''a'', miss_outcome)]) \<and>
   cond_type (conditions b_if_hit) = ATTACK_HIT \<and>
   checkPreviousAttackResult b_if_hit (running [miss_then_b, b_if_hit] [(''a'', miss_outcome)]) = Inr False \<and>
   results (demo_flow [b_if_hit] []) = [] \<and>
   shouldExecute b_if_hit (running [b_if_hit] []) = Inr True \<and>
   \<not> executing idle \<and>
   (\<exists>tail. events (executeQueue demo_game demo_token [b_if_hit, miss_then_b] idle) =
            events idle @ Log_Executing b_if_hit # tail)"
proof -
  let ?s = "running [miss_then_b, b_if_hit] [(''a'', miss_outcome)]"
  have h1: "currentWorkflow ?s = Some (demo_flow [miss_then_b, b_if_hit] [(''a'', miss_outcome)])"
    by (simp add: running_def)
  have h2: "cond_type (conditions b_if_hit) = ATTACK_HIT" by code_simp
  have h3: "\<not> executing idle" by code_simp
  have v: "(case find (\<lambda>(i, r). result_type r = Some ''attack'')
                  (results (demo_flow [miss_then_b, b_if_hit] [(''a'', miss_outcome)])) of
               None \<Rightarrow> True
             | Some (i, r) \<Rightarrow> if cond_type (conditions b_if_hit) = ATTACK_HIT then hit r = Some True
                              else hit r = Some False) = False"
    by code_simp
  from attack_condition_first_entry [where s = ?s and flow = "demo_flow [miss_then_b, b_if_hit] [(''a'', miss_outcome)]"
      and a = b_if_hit and ?s0.0 = idle and g = demo_game
      and token = demo_token and rest = "[miss_then_b]"] h1 h2 h3
  have "checkPreviousAttackResult b_if_hit ?s =
      Inr (case find (\<lambda>(i, r). result_type r = Some ''attack'')
                  (results (demo_flow [miss_then_b, b_if_hit] [(''a'', miss_outcome)])) of
               None \<Rightarrow> True
             | Some (i, r) \<Rightarrow> if cond_type (conditions b_if_hit) = ATTACK_HIT then hit r = Some True
                              else hit r = Some False)"
    and "\<exists>tail. events (executeQueue demo_game demo_token [b_if_hit, miss_then_b] idle) =
            events idle @ Log_Executing b_if_hit # tail"
    by blast+
  moreover
  have e1: "currentWorkflow (running [b_if_hit] []) = Some (demo_flow [b_if_hit] [])"
    by (simp add: running_def)
  have e2: "results (demo_flow [b_if_hit] []) = []" by (simp add: demo_flow_def)
  from attack_condition_first_entry [where s = "running [b_if_hit] []"
      and flow = "demo_flow [b_if_hit] []" and a = b_if_hit] e1 e2 h2
  have "shouldExecute b_if_hit (running [b_if_hit] []) = Inr True" by blast
  ultimately show ?thesis using v h1 h2 h3 e2 by simp
qed

subsection \<open>Failures of a dispatch\<close>

lemma loop_completes:
  fixes s :: "'w Executor"
  assumes "currentWorkflow s \<noteq> None"
      and "\<forall>b\<in>set rest. \<forall>s' :: 'w Executor. currentWorkflow s' \<noteq> None \<longrightarrow> (\<exists>v. shouldExecute b s' = Inr v)"
  shows "fst (executeLoop g as rest s) = None"
  using assms
proof (induction rest arbitrary: s)
  case Nil
  show ?case by simp
next
  case (Cons a rest)
  obtain flow where w: "currentWorkflow s = Some flow" using Cons.prems(1) by auto
  from Cons.prems(2)
  have "\<forall>s' :: 'w Executor. currentWorkflow s' \<noteq> None \<longrightarrow> (\<exists>v. shouldExecute a s' = Inr v)" by simp
  then have "\<exists>v. shouldExecute a s = Inr v" using Cons.prems(1) by blast
  then obtain v where v: "shouldExecute a s = Inr v" by blast
  have rest: "\<forall>b\<in>set rest. \<forall>s' :: 'w Executor. currentWorkflow s' \<noteq> None \<longrightarrow> (\<exists>v. shouldExecute b s' = Inr v)"
    using Cons.prems(2) by simp
  show ?case
  proof (cases v)
    case False
    have "currentWorkflow (emit (Log_Skipping a) s) \<noteq> None" using w by (simp add: emit_def)
    from Cons.IH [OF this rest] v False show ?thesis by simp
  next
    case True
    obtain r s1 where ea: "executeAction g a s = (r, s1)" by (cases "executeAction g a s")
    let ?s2 = "record_result a r flow s1"
    let ?s3 = "if success r \<and> truthy (onSuccess a) then branch g as (onSuccess a) ?s2
               else if \<not> success r \<and> truthy (onFailure a) then branch g as (onFailure a) ?s2
               else ?s2"
    have step: "executeLoop g as (a # rest) s = executeLoop g as rest ?s3"
      using executeLoop_step(2) [OF _ ea w, of as rest] v True by (simp add: Let_def)
    have "currentWorkflow ?s3 \<noteq> None"
      by (simp add: branch_frame record_result_workflow)
    from Cons.IH [OF this rest] step show ?thesis by simp
  qed
qed

text \<open>
  Claim C4. \<open>executeAction\<close> returns a result for every action. When the dispatch
  throws \<open>e\<close> (an executor, or \<open>fromUuid\<close> of an item action), the result is a failure
  with the message of \<open>e\<close>; an action whose type is not in the dispatch table gives the
  failure \<open>Unknown action type\<close>. No dispatch aborts the run: whatever the collaborators
  do, a loop over actions whose conditions evaluate without throwing runs to its end.
\<close>

theorem dispatch_never_raises:
  fixes s :: "'w Executor"
  shows
  "(fst (dispatch g a (emit (Log_Executing a) s)) = Inl e \<longrightarrow>
      fst (executeAction g a s) = failure (message e) \<and>
      \<not> success (fst (executeAction g a s)) \<and>
      error (fst (executeAction g a s)) = Some (message e)) \<and>
   (type a = ITEM \<and> truthy (itemUuid (data a)) \<and>
    fromUuid g (or_else (itemUuid (data a)) []) (world s) = Inl e \<longrightarrow>
      fst (executeAction g a s) = failure (message e)) \<and>
   (type a \<notin> {MOVEMENT, ATTACK, SPELL, ITEM, END_TURN} \<longrightarrow>
      fst (executeAction g a s) = failure ''Unknown action type'' \<and>
      \<not> success (fst (executeAction g a s))) \<and>
   (currentWorkflow s \<noteq> None \<and>
    (\<forall>b\<in>set rest. \<forall>s' :: 'w Executor. currentWorkflow s' \<noteq> None \<longrightarrow> (\<exists>v. shouldExecute b s' = Inr v)) \<longrightarrow>
      fst (executeLoop g as rest s) = None)"
proof (intro conjI impI)
  assume "fst (dispatch g a (emit (Log_Executing a) s)) = Inl e"
  then show r: "fst (executeAction g a s) = failure (message e)"
    by (auto simp: executeAction_def split: prod.splits sum.splits)
  then show "\<not> success (fst (executeAction g a s))" 
    and "error (fst (executeAction g a s)) = Some (message e)"
    by (simp_all add: failure_def)
next
  assume "type a = ITEM \<and> truthy (itemUuid (data a)) \<and>
    fromUuid g (or_else (itemUuid (data a)) []) (world s) = Inl e"
  then have "fst (dispatch g a (emit (Log_Executing a) s)) = Inl e"
    by (simp add: dispatch_def executeItem_def emit_def ITEM_def MOVEMENT_def ATTACK_def SPELL_def)
  then show "fst (executeAction g a s) = failure (message e)"
    by (auto simp: executeAction_def split: prod.splits sum.splits)
next
  assume "type a \<notin> {MOVEMENT, ATTACK, SPELL, ITEM, END_TURN}"
  then show u: "fst (executeAction g a s) = failure ''Unknown action type''"
    by (simp add: executeAction_def dispatch_def)
  then show "\<not> success (fst (executeAction g a s))" by (simp add: failure_def)
next
  assume "currentWorkflow s \<noteq> None \<and>
    (\<forall>b\<in>set rest. \<forall>s' :: 'w Executor. currentWorkflow s' \<noteq> None \<longrightarrow> (\<exists>v. shouldExecute b s' = Inr v))"
  then show "fst (executeLoop g as rest s) = None"
    using loop_completes by blast
qed

theorem dispatch_never_raises_witness:
  "fst (dispatch demo_game throwing_attack
         (emit (Log_Executing throwing_attack) (running [throwing_attack, reaction] []))) =
     Inl (Error ''boom'') \<and>
   fst (executeAction demo_game throwing_attack (running [throwing_attack, reaction] [])) = failure ''boom'' \<and>
   type lost_item = ITEM \<and> truthy (itemUuid (data lost_item)) \<and>
   fst (executeAction broken_game lost_item (running [lost_item] [])) = failure ''no such document'' \<and>
   type reaction \<notin> {MOVEMENT, ATTACK, SPELL, ITEM, END_TURN} \<and>
   fst (executeAction demo_game reaction (running [throwing_attack, reaction] [])) =
     failure ''Unknown action type'' \<and>
   (\<forall>s' :: nat Executor. shouldExecute throwing_attack s' = Inr True) \<and>
   (\<forall>s' :: nat Executor. shouldExecute reaction s' = Inr True) \<and>
   fst (executeLoop demo_game [throwing_attack, reaction] [throwing_attack, reaction]
          (running [throwing_attack, reaction] [])) = None"
proof -
  let ?s = "running [throwing_attack, reaction] []"
  have h1: "fst (dispatch demo_game throwing_attack (emit (Log_Executing throwing_attack) ?s)) =
      Inl (Error ''boom'')" by code_simp
  have h2: "type lost_item = ITEM" "truthy (itemUuid (data lost_item))"
    "fromUuid broken_game (or_else (itemUuid (data lost_item)) []) (world (running [lost_item] [])) =
       Inl (Error ''no such document'')"
    by code_simp+
  have h3: "type reaction \<notin> {MOVEMENT, ATTACK, SPELL, ITEM, END_TURN}" by code_simp
  have h4: "\<forall>s' :: nat Executor. shouldExecute throwing_attack s' = Inr True"
    by (simp add: shouldExecute_def throwing_attack_def demo_action_def always_def)
  have h5: "\<forall>s' :: nat Executor. shouldExecute reaction s' = Inr True"
    by (simp add: shouldExecute_def reaction_def demo_action_def always_def)
  have h6: "currentWorkflow ?s \<noteq> None" by (simp add: running_def)
  have h7: "\<forall>b\<in>set [throwing_attack, reaction]. \<forall>s' :: nat Executor.
      currentWorkflow s' \<noteq> None \<longrightarrow> (\<exists>v. shouldExecute b s' = Inr v)"
    using h4 h5 by fastforce
  have m: "message (Error ''boom'') = ''boom''" "message (Error ''no such document'') = ''no such document''"
    by simp_all
  from dispatch_never_raises [where g = demo_game and a = throwing_attack and s = ?s and e = "Error ''boom''"] h1 m
  have r1: "fst (executeAction demo_game throwing_attack ?s) = failure ''boom''" by simp
  from dispatch_never_raises [where g = broken_game and a = lost_item and s = "running [lost_item] []"
      and e = "Error ''no such document''"] h2 m
  have r2: "fst (executeAction broken_game lost_item (running [lost_item] [])) =
      failure ''no such document''" by simp
  from dispatch_never_raises [where g = demo_game and a = reaction and s = ?s] h3
  have r3: "fst (executeAction demo_game reaction ?s) = failure ''Unknown action type''" by blast
  from dispatch_never_raises [where g = demo_game and s = ?s and rest = "[throwing_attack, reaction]"
      and as = "[throwing_attack, reaction]"] h6 h7
  have r4: "fst (executeLoop demo_game [throwing_attack, reaction] [throwing_attack, reaction] ?s) = None"
    by blast
  from h1 h2 h3 h4 h5 r1 r2 r3 r4 show ?thesis by blast
qed

subsection \<open>The hit point threshold\<close>

lemma checkHPThreshold_raises:
  "currentWorkflow s = Some flow \<Longrightarrow> truthy (cond_value (conditions a)) \<Longrightarrow>
   checkHPThreshold a s = Inl undefined_read"
  by (simp add: checkHPThreshold_def workflow_actor_def)

text \<open>
  With an actor at hand the comparison is the one of the claim, on doubles: at exactly
  50 percent \<open>< 50\<close> is false and \<open><= 50\<close> is true, at 40 percent \<open>< 50\<close> is true, a value
  without comparator gives true; 57 of 100 hit points are \<open>56.99999999999999\<close> percent,
  which is not \<open>>= 57\<close>.
\<close>

lemma compare_hp_boundary:
  "\<not> compare_hp (demo_actor\<lparr> hp_value := 50 \<rparr>) ''< 50'' \<and>
   compare_hp (demo_actor\<lparr> hp_value := 50 \<rparr>) ''<= 50'' \<and>
   \<not> compare_hp (demo_actor\<lparr> hp_value := 50 \<rparr>) ''> 50'' \<and>
   compare_hp (demo_actor\<lparr> hp_value := 50 \<rparr>) ''>= 50'' \<and>
   compare_hp demo_actor ''< 50'' \<and>
   compare_hp demo_actor ''half'' \<and>
   \<not> compare_hp (demo_actor\<lparr> hp_value := 57 \<rparr>) ''>= 57''"
  by code_simp

text \<open>
  Claim C6 at an input where it fails. The actor is at 40 of 100 hit points and the
  condition of the action is \<open>hpThreshold\<close> with the value \<open>< 50\<close>: the check does not
  evaluate to true but throws, reading \<open>system\<close> of the \<open>actor\<close> property that the run
  context does not have; the run is aborted with an error notification and nothing is
  dispatched.
\<close>

theorem hp_threshold_raises_type_error:
  "checkHPThreshold potion_if_low (running [potion_if_low] []) = Inl undefined_read \<and>
   shouldExecute potion_if_low (running [potion_if_low] []) = Inl undefined_read \<and>
   events (executeQueue demo_game demo_token [potion_if_low] idle) =
     [Console_Error undefined_read, Notify_Error] \<and>
   hp_value demo_actor * 100 < 50 * hp_max demo_actor"
  by code_simp

end
